theory Spec2Isabelle
  imports Main "HOL-Library.AList"
begin

section \<open>Python values, exceptions and JSON documents\<close>

text \<open>
  The values the control plane keeps in Redis are JSON texts written by \<^verbatim>\<open>json.dumps\<close>
  (a flat dict of strings, integers and \<^verbatim>\<open>None\<close>) and decimal integers (the rate counter
  and the blacklist marker \<^verbatim>\<open>"1"\<close>). A stored text is represented by the document it parses
  to: \<^verbatim>\<open>json.loads (json.dumps d) = d\<close> on these documents, and no such text is empty, so the
  truthiness test \<^verbatim>\<open>if not otp_data_str\<close> only asks whether \<^verbatim>\<open>GET\<close> returned \<^verbatim>\<open>None\<close>.
  A Python dict is an association list in insertion order; \<^verbatim>\<open>d[k] = v\<close> is \<open>AList.update\<close>.
\<close>

datatype pyval = PyNone | PyInt int | PyStr string

type_synonym pydict = "(string \<times> pyval) list"

datatype json = Obj pydict | Num int

datatype exn =
    ConnectionError
  | ResponseError
  | KeyError string
  | TypeError
  | ValueError
  | OverflowError
  | HTTPException nat string

text \<open>\<^verbatim>\<open>str(n)\<close> of an integer, as the f-strings use it.\<close>

fun digits :: "nat \<Rightarrow> string" where
  "digits n =
     (if n < 10 then [''0123456789'' ! n]
      else digits (n div 10) @ [''0123456789'' ! (n mod 10)])"

declare digits.simps [simp del]

definition str_int :: "int \<Rightarrow> string" where
  "str_int i = (if i < 0 then CHR ''-'' # digits (nat (- i)) else digits (nat i))"

text \<open>What \<^verbatim>\<open>f"{v}"\<close> prints for a value of a session payload.\<close>

fun py_format :: "pyval \<Rightarrow> string" where
  "py_format PyNone = ''None''"
| "py_format (PyInt n) = str_int n"
| "py_format (PyStr s) = s"

section \<open>The Redis client\<close>

text \<open>
  The store maps keys to entries with an optional expiry instant. The clock and the expiry
  instants count milliseconds, as Redis keeps them; a key has expired once the clock is
  past its expiry instant. The field \<open>schedule\<close> is what the connection has in store for
  the coming commands: its head gives the milliseconds that pass before the next command
  reaches the store and whether that command raises \<^verbatim>\<open>redis.ConnectionError\<close>. With an
  empty schedule the store is reachable and every command runs at once. Instants stay far
  below the 64-bit range in which Redis keeps them.
\<close>

record entry =
  val :: json
  expires_at :: "nat option"

record redis =
  kv :: "string \<Rightarrow> entry option"
  clock :: nat
  schedule :: "(nat \<times> bool) list"

type_synonym 'a io = "redis \<Rightarrow> (exn + 'a) \<times> redis"

definition ret :: "'a \<Rightarrow> 'a io" where
  "ret x r = (Inr x, r)"

definition raise :: "exn \<Rightarrow> 'a io" where
  "raise e r = (Inl e, r)"

definition and_then :: "'a io \<Rightarrow> ('a \<Rightarrow> 'b io) \<Rightarrow> 'b io" where
  "and_then m f r = (case m r of (Inl e, r') \<Rightarrow> (Inl e, r') | (Inr x, r') \<Rightarrow> f x r')"

definition live :: "redis \<Rightarrow> string \<Rightarrow> entry option" where
  "live r k =
     (case kv r k of
        None \<Rightarrow> None
      | Some e \<Rightarrow>
          (case expires_at e of
             None \<Rightarrow> Some e
           | Some t \<Rightarrow> if clock r \<le> t then Some e else None))"

definition command :: "'a io \<Rightarrow> 'a io" where
  "command f r =
     (case schedule r of
        [] \<Rightarrow> f r
      | (delay, fault) # rest \<Rightarrow>
          (let r' = r\<lparr>clock := clock r + delay, schedule := rest\<rparr>
           in if fault then (Inl ConnectionError, r') else f r'))"

definition redis_get :: "string \<Rightarrow> json option io" where
  "redis_get k = command (\<lambda>r. (Inr (map_option val (live r k)), r))"

text \<open>
  \<^verbatim>\<open>SETEX\<close> overwrites the key and its TTL, given in seconds; Redis refuses a TTL that is
  not positive.
\<close>

definition redis_setex :: "string \<Rightarrow> int \<Rightarrow> json \<Rightarrow> unit io" where
  "redis_setex k secs v =
     command (\<lambda>r.
       if secs \<le> 0 then (Inl ResponseError, r)
       else (Inr (),
             r\<lparr>kv := (kv r)(k \<mapsto>
               \<lparr>val = v, expires_at = Some (clock r + nat secs * 1000)\<rparr>)\<rparr>))"

definition redis_delete :: "string \<Rightarrow> int io" where
  "redis_delete k =
     command (\<lambda>r. (Inr (if live r k = None then 0 else 1), r\<lparr>kv := (kv r)(k := None)\<rparr>))"

text \<open>
  \<^verbatim>\<open>TTL\<close>: -2 for a missing key, -1 for a key without expiry, else the milliseconds left
  rounded to the nearest second: 0 when less than half a second is left.
\<close>

definition redis_ttl :: "string \<Rightarrow> int io" where
  "redis_ttl k =
     command (\<lambda>r.
       (Inr (case live r k of
               None \<Rightarrow> - 2
             | Some e \<Rightarrow>
                 (case expires_at e of
                    None \<Rightarrow> - 1
                  | Some t \<Rightarrow> (int t - int (clock r) + 500) div 1000)), r))"

text \<open>
  \<^verbatim>\<open>INCR\<close> creates a missing key at 1 without TTL, else adds 1 and keeps the TTL; it
  refuses a value that is not a signed 64-bit integer or that has no successor there.
\<close>

definition redis_incr :: "string \<Rightarrow> int io" where
  "redis_incr k =
     command (\<lambda>r.
       case live r k of
         None \<Rightarrow> (Inr 1, r\<lparr>kv := (kv r)(k \<mapsto> \<lparr>val = Num 1, expires_at = None\<rparr>)\<rparr>)
       | Some e \<Rightarrow>
           (case val e of
              Num n \<Rightarrow>
                if - (2 ^ 63) \<le> n \<and> n < 2 ^ 63 - 1
                then (Inr (n + 1), r\<lparr>kv := (kv r)(k \<mapsto> e\<lparr>val := Num (n + 1)\<rparr>)\<rparr>)
                else (Inl ResponseError, r)
            | Obj d \<Rightarrow> (Inl ResponseError, r)))"

definition redis_exists :: "string \<Rightarrow> int io" where
  "redis_exists k = command (\<lambda>r. (Inr (if live r k = None then 0 else 1), r))"

text \<open>Milliseconds passing between two requests.\<close>

definition advance :: "nat \<Rightarrow> redis \<Rightarrow> redis" where
  "advance n r = r\<lparr>clock := clock r + n\<rparr>"

text \<open>
  \<^verbatim>\<open>timedelta(minutes=m)\<close>, which the client sends as whole seconds: Python refuses a
  duration of more than 999999999 days either way.
\<close>

definition timedelta :: "int \<Rightarrow> int io" where
  "timedelta minutes =
     (if 999999999 < \<bar>minutes div 1440\<bar> then raise OverflowError else ret (minutes * 60))"

section \<open>Key layout\<close>

text \<open>
  The f-strings that name the keys: \<^verbatim>\<open>f"session:{user_id}"\<close>,
  \<^verbatim>\<open>f"otp:{user_id}:{transaction_id}"\<close>, \<^verbatim>\<open>f"rate:{user_id}:{action}"\<close> and
  \<^verbatim>\<open>f"blacklist:{token}"\<close>.
\<close>

definition session_key :: "string \<Rightarrow> string" where
  "session_key user_id = ''session:'' @ user_id"

definition otp_key :: "string \<Rightarrow> string \<Rightarrow> string" where
  "otp_key user_id transaction_id = ''otp:'' @ user_id @ '':'' @ transaction_id"

definition rate_key :: "string \<Rightarrow> string \<Rightarrow> string" where
  "rate_key user_id action = ''rate:'' @ user_id @ '':'' @ action"

definition token_key :: "string \<Rightarrow> string" where
  "token_key token = ''blacklist:'' @ token"

section \<open>RedisService: sessions\<close>

definition create_session_try :: "string \<Rightarrow> pydict \<Rightarrow> int \<Rightarrow> string io" where
  "create_session_try user_id session_data expiry_minutes =
     and_then (timedelta expiry_minutes) (\<lambda>expiry.
     and_then (redis_setex (session_key user_id) expiry (Obj session_data)) (\<lambda>_.
       ret (session_key user_id)))"

definition create_session :: "string \<Rightarrow> pydict \<Rightarrow> int \<Rightarrow> redis \<Rightarrow> string option \<times> redis" where
  "create_session user_id session_data expiry_minutes r =
     (case create_session_try user_id session_data expiry_minutes r of
        (Inr key, r') \<Rightarrow> (Some key, r')
      | (Inl e, r') \<Rightarrow> (None, r'))"

definition get_session_try :: "string \<Rightarrow> json option io" where
  "get_session_try user_id =
     and_then (redis_get (session_key user_id))
       (\<lambda>session_data.
          case session_data of
            Some text \<Rightarrow> ret (Some text)
          | None \<Rightarrow> ret None)"

definition get_session :: "string \<Rightarrow> redis \<Rightarrow> json option \<times> redis" where
  "get_session user_id r =
     (case get_session_try user_id r of
        (Inr session, r') \<Rightarrow> (session, r')
      | (Inl e, r') \<Rightarrow> (None, r'))"

section \<open>RedisService: one-time passcodes\<close>

record otp_result =
  valid :: bool
  message :: string
  attempts_left :: int

definition subscript :: "pydict \<Rightarrow> string \<Rightarrow> pyval io" where
  "subscript d k = (case map_of d k of None \<Rightarrow> raise (KeyError k) | Some v \<Rightarrow> ret v)"

text \<open>The operand of \<^verbatim>\<open>>=\<close> and \<^verbatim>\<open>+=\<close> against an int: anything but an int raises.\<close>

definition as_int :: "pyval \<Rightarrow> int io" where
  "as_int v = (case v of PyInt n \<Rightarrow> ret n | _ \<Rightarrow> raise TypeError)"

definition store_otp_try :: "string \<Rightarrow> string \<Rightarrow> string \<Rightarrow> int \<Rightarrow> bool io" where
  "store_otp_try user_id otp transaction_id expiry_minutes =
     (let otp_data = [(''otp'', PyStr otp),
                      (''transaction_id'', PyStr transaction_id),
                      (''user_id'', PyStr user_id),
                      (''attempts'', PyInt 0)]
      in and_then (timedelta expiry_minutes) (\<lambda>expiry.
         and_then (redis_setex (otp_key user_id transaction_id) expiry (Obj otp_data)) (\<lambda>_.
           ret True)))"

definition store_otp :: "string \<Rightarrow> string \<Rightarrow> string \<Rightarrow> int \<Rightarrow> redis \<Rightarrow> bool \<times> redis" where
  "store_otp user_id otp transaction_id expiry_minutes r =
     (case store_otp_try user_id otp transaction_id expiry_minutes r of
        (Inr ok, r') \<Rightarrow> (ok, r')
      | (Inl e, r') \<Rightarrow> (False, r'))"

definition verify_otp_try :: "string \<Rightarrow> string \<Rightarrow> string \<Rightarrow> int \<Rightarrow> otp_result io" where
  "verify_otp_try user_id transaction_id otp max_attempts =
     (let key = otp_key user_id transaction_id in
      and_then (redis_get key) (\<lambda>otp_data_str.
        case otp_data_str of
          None \<Rightarrow>
            ret \<lparr>valid = False, message = ''OTP expired or not found'', attempts_left = 0\<rparr>
        | Some (Num n) \<Rightarrow> raise TypeError
        | Some (Obj otp_data) \<Rightarrow>
            and_then (subscript otp_data ''attempts'') (\<lambda>v.
            and_then (as_int v) (\<lambda>attempts.
              if attempts \<ge> max_attempts then
                and_then (redis_delete key) (\<lambda>_.
                  ret \<lparr>valid = False, message = ''Maximum OTP attempts exceeded'',
                       attempts_left = 0\<rparr>)
              else
                and_then (subscript otp_data ''otp'') (\<lambda>stored_otp.
                  if stored_otp = PyStr otp then
                    and_then (redis_delete key) (\<lambda>_.
                      ret \<lparr>valid = True, message = ''OTP verified successfully'',
                           attempts_left = max_attempts - attempts\<rparr>)
                  else
                    (let otp_data' = AList.update ''attempts'' (PyInt (attempts + 1)) otp_data in
                     and_then (redis_ttl key) (\<lambda>remaining_ttl.
                     and_then (redis_setex key remaining_ttl (Obj otp_data')) (\<lambda>_.
                       (let attempts_left = max_attempts - (attempts + 1) in
                        ret \<lparr>valid = False,
                             message = ''Invalid OTP. '' @ str_int attempts_left @ '' attempts left'',
                             attempts_left = attempts_left\<rparr>)))))))))"

definition verify_otp :: "string \<Rightarrow> string \<Rightarrow> string \<Rightarrow> int \<Rightarrow> redis \<Rightarrow> otp_result \<times> redis" where
  "verify_otp user_id transaction_id otp max_attempts r =
     (case verify_otp_try user_id transaction_id otp max_attempts r of
        (Inr result, r') \<Rightarrow> (result, r')
      | (Inl e, r') \<Rightarrow>
          (\<lparr>valid = False, message = ''OTP verification failed'', attempts_left = 0\<rparr>, r'))"

text \<open>A scenario: verification calls one after the other, each after a delay.\<close>

fun verify_all ::
  "string \<Rightarrow> string \<Rightarrow> int \<Rightarrow> (nat \<times> string) list \<Rightarrow> redis \<Rightarrow> otp_result list \<times> redis" where
  "verify_all user_id transaction_id max_attempts [] r = ([], r)"
| "verify_all user_id transaction_id max_attempts ((delay, otp) # calls) r =
     (let (result, r1) = verify_otp user_id transaction_id otp max_attempts (advance delay r);
          (results, r2) = verify_all user_id transaction_id max_attempts calls r1
      in (result # results, r2))"

text \<open>Histories of the OTP operations under one configured maximum.\<close>

datatype otp_op =
    StoreOtp string string string int
  | VerifyOtp string string string
  | Tick nat

fun otp_step :: "int \<Rightarrow> otp_op \<Rightarrow> redis \<Rightarrow> redis" where
  "otp_step max_attempts (StoreOtp user_id otp transaction_id expiry_minutes) r =
     snd (store_otp user_id otp transaction_id expiry_minutes r)"
| "otp_step max_attempts (VerifyOtp user_id transaction_id otp) r =
     snd (verify_otp user_id transaction_id otp max_attempts r)"
| "otp_step max_attempts (Tick n) r = advance n r"

definition otp_run :: "int \<Rightarrow> otp_op list \<Rightarrow> redis \<Rightarrow> redis" where
  "otp_run max_attempts ops r = fold (otp_step max_attempts) ops r"

section \<open>RedisService: rate limiting\<close>

record rate_result =
  allowed :: bool
  remaining :: int
  reset_in :: int

text \<open>\<^verbatim>\<open>int(count)\<close> on the text \<^verbatim>\<open>GET\<close> returned.\<close>

definition py_int :: "json \<Rightarrow> int io" where
  "py_int text = (case text of Num n \<Rightarrow> ret n | Obj d \<Rightarrow> raise ValueError)"

definition check_rate_limit_try :: "string \<Rightarrow> string \<Rightarrow> int \<Rightarrow> int \<Rightarrow> rate_result io" where
  "check_rate_limit_try user_id action max_requests window_minutes =
     (let key = rate_key user_id action in
      and_then (redis_get key) (\<lambda>count.
        case count of
          None \<Rightarrow>
            and_then (timedelta window_minutes) (\<lambda>window.
            and_then (redis_setex key window (Num 1)) (\<lambda>_.
              ret \<lparr>allowed = True, remaining = max_requests - 1,
                   reset_in = window_minutes * 60\<rparr>))
        | Some text \<Rightarrow>
            and_then (py_int text) (\<lambda>count.
              if count \<ge> max_requests then
                and_then (redis_ttl key) (\<lambda>ttl.
                  ret \<lparr>allowed = False, remaining = 0, reset_in = ttl\<rparr>)
              else
                and_then (redis_incr key) (\<lambda>_.
                and_then (redis_ttl key) (\<lambda>ttl.
                  ret \<lparr>allowed = True, remaining = max_requests - count - 1,
                       reset_in = ttl\<rparr>)))))"

definition check_rate_limit :: "string \<Rightarrow> string \<Rightarrow> int \<Rightarrow> int \<Rightarrow> redis \<Rightarrow> rate_result \<times> redis" where
  "check_rate_limit user_id action max_requests window_minutes r =
     (case check_rate_limit_try user_id action max_requests window_minutes r of
        (Inr result, r') \<Rightarrow> (result, r')
      | (Inl e, r') \<Rightarrow>
          (\<lparr>allowed = True, remaining = max_requests, reset_in = window_minutes * 60\<rparr>, r'))"

text \<open>A scenario: rate-limit checks one after the other, each after a delay.\<close>

fun check_all ::
  "string \<Rightarrow> string \<Rightarrow> int \<Rightarrow> int \<Rightarrow> nat list \<Rightarrow> redis \<Rightarrow> rate_result list \<times> redis" where
  "check_all user_id action max_requests window_minutes [] r = ([], r)"
| "check_all user_id action max_requests window_minutes (delay # delays) r =
     (let (result, r1) =
            check_rate_limit user_id action max_requests window_minutes (advance delay r);
          (results, r2) = check_all user_id action max_requests window_minutes delays r1
      in (result # results, r2))"

section \<open>RedisService: token blacklist\<close>

definition blacklist_token_try :: "string \<Rightarrow> int \<Rightarrow> bool io" where
  "blacklist_token_try token expiry_minutes =
     and_then (timedelta expiry_minutes) (\<lambda>expiry.
     and_then (redis_setex (token_key token) expiry (Num 1)) (\<lambda>_. ret True))"

definition blacklist_token :: "string \<Rightarrow> int \<Rightarrow> redis \<Rightarrow> bool \<times> redis" where
  "blacklist_token token expiry_minutes r =
     (case blacklist_token_try token expiry_minutes r of
        (Inr ok, r') \<Rightarrow> (ok, r')
      | (Inl e, r') \<Rightarrow> (False, r'))"

definition is_token_blacklisted_try :: "string \<Rightarrow> bool io" where
  "is_token_blacklisted_try token =
     and_then (redis_exists (token_key token)) (\<lambda>n. ret (n > 0))"

definition is_token_blacklisted :: "string \<Rightarrow> redis \<Rightarrow> bool \<times> redis" where
  "is_token_blacklisted token r =
     (case is_token_blacklisted_try token r of
        (Inr b, r') \<Rightarrow> (b, r')
      | (Inl e, r') \<Rightarrow> (False, r'))"

section \<open>AuthManager: the authentication dependency\<close>

text \<open>
  \<^verbatim>\<open>jwt.decode\<close> (signature and expiry validation under the secret key) is a parameter:
  it returns the claims of the token or one of the two errors \<^verbatim>\<open>verify_token\<close> handles.
\<close>

datatype jwt_error = ExpiredSignatureError | JWTError string

fun capitalize :: "string \<Rightarrow> string" where
  "capitalize [] = []"
| "capitalize (c # cs) =
     (let upper = (\<lambda>c. let n = (of_char c :: nat) in
                        if 97 \<le> n \<and> n \<le> 122 then char_of (n - 32) else c);
          lower = (\<lambda>c. let n = (of_char c :: nat) in
                        if 65 \<le> n \<and> n \<le> 90 then char_of (n + 32) else c)
      in upper c # map lower cs)"

definition verify_token ::
  "(string \<Rightarrow> jwt_error + pydict) \<Rightarrow> string \<Rightarrow> string \<Rightarrow> exn + pydict" where
  "verify_token jwt_decode token token_type =
     (case jwt_decode token of
        Inl ExpiredSignatureError \<Rightarrow>
          Inl (HTTPException 401
                 (capitalize token_type @ '' token has expired. Please login again.''))
      | Inl (JWTError e) \<Rightarrow>
          Inl (HTTPException 401 (''Could not validate credentials: '' @ e))
      | Inr payload \<Rightarrow>
          if map_of payload ''type'' \<noteq> Some (PyStr token_type) then
            Inl (HTTPException 401
                   (''Invalid token type. Expected '' @ token_type @ '', got '' @
                    (case map_of payload ''type'' of
                       None \<Rightarrow> ''None''
                     | Some v \<Rightarrow> py_format v)))
          else
            (case map_of payload ''sub'' of
               None \<Rightarrow> Inl (HTTPException 401 ''Invalid token: no user ID found'')
             | Some PyNone \<Rightarrow> Inl (HTTPException 401 ''Invalid token: no user ID found'')
             | Some user_id \<Rightarrow> Inr payload))"

text \<open>
  The calls \<^verbatim>\<open>get_current_user\<close> makes to its collaborators, in the order it makes them.
  The flag \<open>redis_service\<close> is the module global \<^verbatim>\<open>_redis_service\<close>: whether a service was
  registered at startup.
\<close>

datatype auth_call = BlacklistLookup string | TokenValidation string

definition get_current_user ::
  "bool \<Rightarrow> (string \<Rightarrow> jwt_error + pydict) \<Rightarrow> string \<Rightarrow> redis
     \<Rightarrow> ((exn + pyval) \<times> auth_call list) \<times> redis" where
  "get_current_user redis_service jwt_decode token r =
     (let authenticate =
            (case verify_token jwt_decode token ''access'' of
               Inl e \<Rightarrow> Inl e
             | Inr payload \<Rightarrow>
                 (case map_of payload ''sub'' of
                    Some user_id \<Rightarrow> Inr user_id
                  | None \<Rightarrow>
                      Inl (HTTPException 401
                             (''Authentication failed: '' @ [CHR 0x27] @ ''sub'' @ [CHR 0x27]))))
      in
      if redis_service then
        (let (is_blacklisted, r') = is_token_blacklisted token r in
         if is_blacklisted then
           ((Inl (HTTPException 401 ''Token has been revoked. Please login again.''),
             [BlacklistLookup token]), r')
         else ((authenticate, [BlacklistLookup token, TokenValidation token]), r'))
      else ((authenticate, [TokenValidation token]), r))"

definition status_code :: "exn + 'a \<Rightarrow> nat option" where
  "status_code res = (case res of Inl (HTTPException code detail) \<Rightarrow> Some code | _ \<Rightarrow> None)"

section \<open>Issuing a passcode: transfer_money and initiate_transfer\<close>

text \<open>
  \<^verbatim>\<open>random.randint(a, b)\<close> is \<open>a\<close> plus a number below the width \<open>b - a + 1\<close>, which
  CPython gets by drawing as many bits as the width has and drawing again while the draw
  is not below the width. The list holds the draws the generator is about to give; the
  loop has its answer at the first draw below the width and none (\<open>None\<close>) when the list
  ends before.
\<close>

fun randbelow :: "nat \<Rightarrow> nat list \<Rightarrow> (nat \<times> nat list) option" where
  "randbelow n [] = None"
| "randbelow n (draw # draws) = (if draw < n then Some (draw, draws) else randbelow n draws)"

definition randint :: "int \<Rightarrow> int \<Rightarrow> nat list \<Rightarrow> (int \<times> nat list) option" where
  "randint a b draws =
     map_option (\<lambda>(k, rest). (a + int k, rest)) (randbelow (nat (b - a + 1)) draws)"

definition transfer_money_otp :: "nat list \<Rightarrow> (string \<times> nat list) option" where
  "transfer_money_otp draws =
     map_option (\<lambda>(n, rest). (str_int n, rest)) (randint 100000 999999 draws)"

text \<open>
  The issuing steps of \<^verbatim>\<open>initiate_transfer\<close> once \<^verbatim>\<open>transfer_money\<close> has succeeded; the
  transaction identifier is the wall-clock second. The result is the identifier, the
  code and the draws left to the generator.
\<close>

definition initiate_transfer ::
  "bool \<Rightarrow> string \<Rightarrow> nat list \<Rightarrow> redis
     \<Rightarrow> (((string \<times> string) \<times> nat list) \<times> redis) option" where
  "initiate_transfer redis_service current_user draws r =
     (case transfer_money_otp draws of
        None \<Rightarrow> None
      | Some (otp, rest) \<Rightarrow>
          (let transaction_id = ''TXN'' @ str_int (int (clock r div 1000));
               r' = (if redis_service
                     then snd (store_otp current_user otp transaction_id 5 r) else r)
           in Some (((transaction_id, otp), rest), r')))"

section \<open>The conversational path: process_voice\<close>

record voice_reply =
  response_text :: string
  intent :: string
  transaction_id :: "pyval option"
  otp_status :: "string option"

text \<open>
  The branch of \<^verbatim>\<open>process_voice\<close> taken when the classifier reports \<^verbatim>\<open>OTP_VERIFICATION\<close>
  with an extracted code. \<open>reply\<close> holds the variables as they are before the branch.
\<close>

definition process_voice_otp ::
  "bool \<Rightarrow> string \<Rightarrow> string \<Rightarrow> voice_reply \<Rightarrow> redis \<Rightarrow> (exn + voice_reply) \<times> redis" where
  "process_voice_otp redis_service current_user otp reply r =
     (if redis_service then
        (let (session, r1) = get_session current_user r;
             no_transaction =
               reply\<lparr>response_text := ''No pending transaction found.'',
                      otp_status := Some ''no_transaction''\<rparr>
         in case session of
              None \<Rightarrow> (Inr no_transaction, r1)
            | Some (Num n) \<Rightarrow> if n = 0 then (Inr no_transaction, r1) else (Inl TypeError, r1)
            | Some (Obj session_data) \<Rightarrow>
                (case map_of session_data ''pending_transaction_id'' of
                   None \<Rightarrow> (Inr no_transaction, r1)
                 | Some pending \<Rightarrow>
                     (let (verification, r2) =
                            verify_otp current_user (py_format pending) otp 3 r1
                      in if valid verification then
                           (let session_data' =
                                  AList.update ''pending_transaction_id'' PyNone session_data;
                                (_, r3) = create_session current_user session_data' 1440 r2
                            in (Inr \<lparr>response_text = ''Transaction completed successfully!'',
                                     intent = ''TRANSACTION_COMPLETE'',
                                     transaction_id = Some pending,
                                     otp_status = Some ''verified''\<rparr>, r3))
                         else
                           (Inr \<lparr>response_text = ''Invalid OTP. '' @ message verification,
                                 intent = ''OTP_FAILED'',
                                 transaction_id = Some pending,
                                 otp_status = Some ''failed''\<rparr>, r2))))
      else (Inr reply, r))"

section \<open>Connection faults\<close>

text \<open>
  A computation is fault safe when the part of the schedule it consumes is a prefix of the
  schedule, and a raised command in that part makes the computation end in an exception.
\<close>

definition fault_safe :: "'a io \<Rightarrow> bool" where
  "fault_safe m =
     (\<forall>r. \<exists>pre. schedule r = pre @ schedule (snd (m r))
        \<and> (True \<in> snd ` set pre \<longrightarrow> isl (fst (m r))))"

section \<open>Example states\<close>

definition empty_store :: redis where
  "empty_store = \<lparr>kv = (\<lambda>k. None), clock = 0, schedule = []\<rparr>"

text \<open>
  States used to run the theorems: a store whose connection drops at the third command, a
  rate counter at its limit with a connection that drops at the second command, a store
  with a revoked token, a decoder that accepts every token and one that rejects every
  token, sessions that name a pending transaction, with a valid and with an exhausted OTP
  record, and an OTP record with 400 milliseconds left to live.
\<close>

definition flaky_store :: redis where
  "flaky_store =
     (snd (store_otp ''alice'' ''123456'' ''TXN1'' 5 empty_store))
       \<lparr>schedule := [(0, False), (0, False), (0, True)]\<rparr>"

definition limited_store :: redis where
  "limited_store =
     (snd (check_all ''alice'' ''login'' 2 1 [0, 10000] empty_store))
       \<lparr>schedule := [(0, False), (0, True)]\<rparr>"

definition revoked_store :: redis where
  "revoked_store = snd (blacklist_token ''tok'' 15 empty_store)"

definition accepting_decoder :: "string \<Rightarrow> jwt_error + pydict" where
  "accepting_decoder token = Inr [(''sub'', PyStr ''alice''), (''type'', PyStr ''access'')]"

definition rejecting_decoder :: "string \<Rightarrow> jwt_error + pydict" where
  "rejecting_decoder token = Inl (JWTError ''Signature verification failed.'')"

definition blank_reply :: voice_reply where
  "blank_reply = \<lparr>response_text = ''Verifying your OTP.'', intent = ''OTP_VERIFICATION'',
     transaction_id = None, otp_status = None\<rparr>"

definition pending_store :: redis where
  "pending_store =
     snd (create_session ''alice''
            [(''name'', PyStr ''Alice''), (''pending_transaction_id'', PyStr ''TXN1'')] 1440
            (snd (store_otp ''alice'' ''123456'' ''TXN1'' 5 empty_store)))"

definition exhausted_store :: redis where
  "exhausted_store =
     otp_run 3 [VerifyOtp ''alice'' ''TXN1'' ''000000'', VerifyOtp ''alice'' ''TXN1'' ''111111'',
                VerifyOtp ''alice'' ''TXN1'' ''222222''] pending_store"

definition expiring_store :: redis where
  "expiring_store = advance 299600 (snd (store_otp ''alice'' ''123456'' ''TXN1'' 5 empty_store))"


text \<open>The store after the code 100007 has been issued to a user at the first second.\<close>

definition issued_store :: redis where
  "issued_store = snd (store_otp ''alice'' ''100007'' ''TXN0'' 5 empty_store)"

section \<open>Facts about the store and the OTP operations\<close>

lemmas io_defs = ret_def raise_def and_then_def command_def redis_get_def redis_setex_def
  redis_delete_def redis_ttl_def redis_incr_def redis_exists_def subscript_def as_int_def
  py_int_def timedelta_def Let_def

lemmas eval_defs = store_otp_def store_otp_try_def verify_otp_def verify_otp_try_def io_defs
  live_def advance_def empty_store_def str_int_def digits.simps

lemma verify_otp_absent:
  assumes "schedule r = []" and "live r (otp_key u t) = None"
  shows "verify_otp u t c m r =
    (\<lparr>valid = False, message = ''OTP expired or not found'', attempts_left = 0\<rparr>, r)"
  using assms by (simp add: verify_otp_def verify_otp_try_def io_defs)

lemma verify_otp_exhausted:
  assumes "schedule r = []" and "live r (otp_key u t) = Some e" and "val e = Obj d"
    and "map_of d ''attempts'' = Some (PyInt a)" and "m \<le> a"
  shows "verify_otp u t c m r =
    (\<lparr>valid = False, message = ''Maximum OTP attempts exceeded'', attempts_left = 0\<rparr>,
     r\<lparr>kv := (kv r)(otp_key u t := None)\<rparr>)"
  using assms by (simp add: verify_otp_def verify_otp_try_def io_defs)

lemma verify_otp_match:
  assumes "schedule r = []" and "live r (otp_key u t) = Some e" and "val e = Obj d"
    and "map_of d ''attempts'' = Some (PyInt a)" and "a < m"
    and "map_of d ''otp'' = Some (PyStr c)"
  shows "verify_otp u t c m r =
    (\<lparr>valid = True, message = ''OTP verified successfully'', attempts_left = m - a\<rparr>,
     r\<lparr>kv := (kv r)(otp_key u t := None)\<rparr>)"
  using assms by (simp add: verify_otp_def verify_otp_try_def io_defs)

lemma live_SomeD:
  "live r k = Some e \<Longrightarrow> kv r k = Some e \<and> (\<forall>E. expires_at e = Some E \<longrightarrow> clock r \<le> E)"
  by (auto simp: live_def split: option.splits if_splits)

lemma verify_otp_mismatch:
  assumes "schedule r = []" and "live r (otp_key u t) = Some e" and "val e = Obj d"
    and "expires_at e = Some E"
    and "map_of d ''attempts'' = Some (PyInt a)" and "a < m"
    and "map_of d ''otp'' = Some v" and "v \<noteq> PyStr c"
    and "clock r + 500 \<le> E"
  shows "verify_otp u t c m r =
    (\<lparr>valid = False,
      message = ''Invalid OTP. '' @ str_int (m - (a + 1)) @ '' attempts left'',
      attempts_left = m - (a + 1)\<rparr>,
     r\<lparr>kv := (kv r)(otp_key u t \<mapsto>
          \<lparr>val = Obj (AList.update ''attempts'' (PyInt (a + 1)) d),
           expires_at = Some (clock r + (E - clock r + 500) div 1000 * 1000)\<rparr>)\<rparr>)"
proof -
  have ttl: "(int E - int (clock r) + 500) div 1000 = int ((E - clock r + 500) div 1000)"
    using assms(9) by (simp add: zdiv_int of_nat_diff)
  have pos: "0 < (E - clock r + 500) div 1000"
    using assms(9) by (simp add: div_greater_zero_iff)
  show ?thesis
    using assms(1-8) pos
    by (simp add: verify_otp_def verify_otp_try_def io_defs ttl)
qed

lemma verify_otp_uncounted:
  assumes "schedule r = []" and "live r (otp_key u t) = Some e" and "val e = Obj d"
    and "expires_at e = Some E"
    and "map_of d ''attempts'' = Some (PyInt a)" and "a < m"
    and "map_of d ''otp'' = Some v" and "v \<noteq> PyStr c"
    and "E < clock r + 500"
  shows "verify_otp u t c m r =
    (\<lparr>valid = False, message = ''OTP verification failed'', attempts_left = 0\<rparr>, r)"
proof -
  have "clock r \<le> E" using assms(2,4) live_SomeD by blast
  then have "(int E - int (clock r) + 500) div 1000 = 0"
    using assms(9) by simp
  then show ?thesis
    using assms(1-8)
    by (simp add: verify_otp_def verify_otp_try_def io_defs)
qed

text \<open>
  Claim C1. With the store reachable, a verification that finds a record for the user and
  the transaction whose attempt counter is below the maximum and whose code equals the
  submitted one returns valid with \<open>max_attempts\<close> minus the recorded attempts as attempts
  left, and deletes the record: a \<^verbatim>\<open>GET\<close> on the key then returns nothing, and the same
  verification replayed, at once or later, reports that the OTP expired or was not found,
  with no attempts left.
\<close>

theorem verify_otp_correct_code:
  assumes "schedule r = []"
    and "live r (otp_key u t) = Some e"
    and "val e = Obj d"
    and "map_of d ''attempts'' = Some (PyInt a)"
    and "a < m"
    and "map_of d ''otp'' = Some (PyStr code)"
  shows "(let r' = r\<lparr>kv := (kv r)(otp_key u t := None)\<rparr> in
          verify_otp u t code m r =
            (\<lparr>valid = True, message = ''OTP verified successfully'',
              attempts_left = m - a\<rparr>, r')
        \<and> redis_get (otp_key u t) r' = (Inr None, r')
        \<and> (\<forall>n. verify_otp u t code m (advance n r') =
              (\<lparr>valid = False, message = ''OTP expired or not found'', attempts_left = 0\<rparr>,
               advance n r')))"
proof -
  define r' where "r' = r\<lparr>kv := (kv r)(otp_key u t := None)\<rparr>"
  have fr: "schedule r' = []" using assms(1) by (simp add: r'_def)
  have gone: "live (advance n r') (otp_key u t) = None" for n
    by (simp add: r'_def live_def advance_def)
  have gone0: "live r' (otp_key u t) = None"
    by (simp add: r'_def live_def)
  have first: "verify_otp u t code m r =
      (\<lparr>valid = True, message = ''OTP verified successfully'', attempts_left = m - a\<rparr>, r')"
    unfolding r'_def using assms by (rule verify_otp_match)
  have absent: "redis_get (otp_key u t) r' = (Inr None, r')"
    using fr gone0 by (simp add: redis_get_def command_def)
  have replay: "verify_otp u t code m (advance n r') =
      (\<lparr>valid = False, message = ''OTP expired or not found'', attempts_left = 0\<rparr>,
       advance n r')" for n
    using fr gone [of n] by (intro verify_otp_absent) (simp_all add: advance_def)
  show ?thesis
    using first absent replay unfolding Let_def r'_def by blast
qed

text \<open>The theorem at the record that \<^verbatim>\<open>store_otp\<close> has just written.\<close>

theorem verify_otp_correct_code_witness:
  "(let r = snd (store_otp ''alice'' ''123456'' ''TXN1'' 5 empty_store);
        r' = r\<lparr>kv := (kv r)(otp_key ''alice'' ''TXN1'' := None)\<rparr> in
    schedule r = [] \<and> (0::int) < 3
    \<and> verify_otp ''alice'' ''TXN1'' ''123456'' 3 r =
         (\<lparr>valid = True, message = ''OTP verified successfully'', attempts_left = 3\<rparr>, r')
    \<and> verify_otp ''alice'' ''TXN1'' ''123456'' 3 r' =
         (\<lparr>valid = False, message = ''OTP expired or not found'', attempts_left = 0\<rparr>, r'))"
proof -
  let ?d = "[(''otp'', PyStr ''123456''), (''transaction_id'', PyStr ''TXN1''),
             (''user_id'', PyStr ''alice''), (''attempts'', PyInt 0)]"
  let ?r = "snd (store_otp ''alice'' ''123456'' ''TXN1'' 5 empty_store)"
  have f: "schedule ?r = []"
    by (simp add: store_otp_def store_otp_try_def io_defs empty_store_def)
  have l: "live ?r (otp_key ''alice'' ''TXN1'') = Some \<lparr>val = Obj ?d, expires_at = Some 300000\<rparr>"
    by (simp add: store_otp_def store_otp_try_def io_defs empty_store_def live_def)
  have a0: "advance 0 r = r" for r by (simp add: advance_def)
  note main = verify_otp_correct_code [OF f l, of ?d 0 3 "''123456''", unfolded Let_def, simplified]
  from main have replay: "verify_otp ''alice'' ''TXN1'' ''123456'' 3
      (advance 0 (?r\<lparr>kv := (kv ?r)(otp_key ''alice'' ''TXN1'' := None)\<rparr>)) =
      (\<lparr>valid = False, message = ''OTP expired or not found'', attempts_left = 0\<rparr>,
       advance 0 (?r\<lparr>kv := (kv ?r)(otp_key ''alice'' ''TXN1'' := None)\<rparr>))"
    by blast
  show ?thesis
    using main f replay [unfolded a0] by (simp add: Let_def)
qed

section \<open>Connection faults and exceptions\<close>

lemma fault_safe_ret: "fault_safe (ret x)"
  by (simp add: fault_safe_def ret_def)

lemma fault_safe_raise: "fault_safe (raise e)"
  by (simp add: fault_safe_def raise_def)

lemma fault_safe_command:
  assumes "\<And>r. schedule (snd (f r)) = schedule r"
  shows "fault_safe (command f)"
  unfolding fault_safe_def
proof
  fix r
  show "\<exists>pre. schedule r = pre @ schedule (snd (command f r))
          \<and> (True \<in> snd ` set pre \<longrightarrow> isl (fst (command f r)))"
  proof (cases "schedule r")
    case Nil
    then show ?thesis using assms [of r] by (intro exI [of _ "[]"]) (simp add: command_def)
  next
    case (Cons step rest)
    obtain delay fault where step: "step = (delay, fault)" by (cases step)
    show ?thesis
      using Cons step assms [of "r\<lparr>clock := clock r + delay, schedule := rest\<rparr>"]
      by (intro exI [of _ "[step]"]) (simp add: command_def Let_def)
  qed
qed

lemma fault_safe_and_then:
  assumes "fault_safe m" and "\<And>x. fault_safe (f x)"
  shows "fault_safe (and_then m f)"
  unfolding fault_safe_def
proof
  fix r
  obtain res r1 where m: "m r = (res, r1)" by (cases "m r")
  obtain p1 where p1: "schedule r = p1 @ schedule r1" "True \<in> snd ` set p1 \<longrightarrow> isl res"
    using assms(1) m unfolding fault_safe_def by (metis fst_conv snd_conv)
  show "\<exists>pre. schedule r = pre @ schedule (snd (and_then m f r))
          \<and> (True \<in> snd ` set pre \<longrightarrow> isl (fst (and_then m f r)))"
  proof (cases res)
    case (Inl e)
    then show ?thesis using m p1 by (intro exI [of _ p1]) (simp add: and_then_def)
  next
    case (Inr x)
    obtain p2 where p2: "schedule r1 = p2 @ schedule (snd (f x r1))"
        "True \<in> snd ` set p2 \<longrightarrow> isl (fst (f x r1))"
      using assms(2) [of x] unfolding fault_safe_def by blast
    have "True \<notin> snd ` set p1" using p1(2) Inr by auto
    then show ?thesis using m p1 p2 Inr
      by (intro exI [of _ "p1 @ p2"]) (auto simp: and_then_def)
  qed
qed

lemma fault_safe_redis:
  "fault_safe (redis_get k)" "fault_safe (redis_setex k secs v)" "fault_safe (redis_delete k)"
  "fault_safe (redis_ttl k)" "fault_safe (redis_incr k)" "fault_safe (redis_exists k)"
  unfolding redis_get_def redis_setex_def redis_delete_def redis_ttl_def redis_incr_def
    redis_exists_def
  by (rule fault_safe_command; simp split: option.splits json.splits)+

lemma fault_safe_python:
  "fault_safe (subscript d k)" "fault_safe (as_int v)" "fault_safe (py_int text)"
  "fault_safe (timedelta minutes)"
  by (simp_all add: subscript_def as_int_def py_int_def timedelta_def fault_safe_ret
      fault_safe_raise
      split: option.splits pyval.splits json.splits)

lemmas fault_safe_intros = fault_safe_ret fault_safe_raise fault_safe_and_then
  fault_safe_redis fault_safe_python

lemma fault_safe_verify_otp_try: "fault_safe (verify_otp_try u t c m)"
  unfolding verify_otp_try_def Let_def
  by (auto intro!: fault_safe_intros split: option.splits json.splits)

lemma fault_safe_check_rate_limit_try: "fault_safe (check_rate_limit_try u a m w)"
  unfolding check_rate_limit_try_def Let_def
  by (auto intro!: fault_safe_intros split: option.splits json.splits)

lemma fault_safe_is_token_blacklisted_try: "fault_safe (is_token_blacklisted_try tok)"
  unfolding is_token_blacklisted_try_def
  by (auto intro!: fault_safe_intros)

lemma fault_safeD:
  assumes "fault_safe m" and "schedule r = pre @ schedule (snd (m r))" and "True \<in> snd ` set pre"
  shows "isl (fst (m r))"
proof -
  obtain p where p: "schedule r = p @ schedule (snd (m r))" "True \<in> snd ` set p \<longrightarrow> isl (fst (m r))"
    using assms(1) unfolding fault_safe_def by blast
  have "p = pre" using p(1) assms(2) by simp
  then show ?thesis using p(2) assms(3) by simp
qed

section \<open>Exhaustion and the attempt counter\<close>

lemma store_otp_ok:
  assumes "store_otp u c t mins r = (True, r')"
  shows "0 < mins \<and> clock r \<le> clock r'
       \<and> (schedule r = [] \<longrightarrow> schedule r' = [] \<and> clock r' = clock r)
       \<and> kv r' = (kv r)(otp_key u t \<mapsto>
            \<lparr>val = Obj [(''otp'', PyStr c), (''transaction_id'', PyStr t),
                         (''user_id'', PyStr u), (''attempts'', PyInt 0)],
             expires_at = Some (clock r' + nat (mins * 60) * 1000)\<rparr>)"
  using assms
  by (auto simp: store_otp_def store_otp_try_def io_defs
      split: list.splits if_splits prod.splits)

lemma store_otp_kv_cases:
  "kv (snd (store_otp u c t mins r)) = kv r
   \<or> (\<exists>E. kv (snd (store_otp u c t mins r)) = (kv r)(otp_key u t \<mapsto>
            \<lparr>val = Obj [(''otp'', PyStr c), (''transaction_id'', PyStr t),
                         (''user_id'', PyStr u), (''attempts'', PyInt 0)],
             expires_at = Some E\<rparr>))"
  by (auto simp: store_otp_def store_otp_try_def io_defs
      split: list.splits if_splits prod.splits)

lemma verify_otp_kv_cases:
  "kv (snd (verify_otp u t c m r)) = kv r
   \<or> kv (snd (verify_otp u t c m r)) = (kv r)(otp_key u t := None)
   \<or> (\<exists>e d a E. kv r (otp_key u t) = Some e \<and> val e = Obj d
         \<and> map_of d ''attempts'' = Some (PyInt a) \<and> a < m
         \<and> kv (snd (verify_otp u t c m r)) = (kv r)(otp_key u t \<mapsto>
              \<lparr>val = Obj (AList.update ''attempts'' (PyInt (a + 1)) d),
               expires_at = Some E\<rparr>))"
  by (auto simp: verify_otp_def verify_otp_try_def io_defs live_def
      split: list.splits option.splits json.splits pyval.splits if_splits prod.splits)

lemma otp_step_preserves:
  assumes "0 \<le> m"
    and inv: "\<forall>k e. kv r k = Some e \<longrightarrow>
           (\<exists>d a. val e = Obj d \<and> map_of d ''attempts'' = Some (PyInt a) \<and> 0 \<le> a \<and> a \<le> m)"
  shows "\<forall>k e. kv (otp_step m x r) k = Some e \<longrightarrow>
           (\<exists>d a. val e = Obj d \<and> map_of d ''attempts'' = Some (PyInt a) \<and> 0 \<le> a \<and> a \<le> m)"
proof (cases x)
  case (StoreOtp u c t mins)
  show ?thesis
    using store_otp_kv_cases [of u c t mins r] inv assms(1)
    unfolding StoreOtp otp_step.simps
    by (auto split: if_splits)
next
  case (VerifyOtp u t c)
  have "\<forall>k e. kv (snd (verify_otp u t c m r)) k = Some e \<longrightarrow>
           (\<exists>d a. val e = Obj d \<and> map_of d ''attempts'' = Some (PyInt a) \<and> 0 \<le> a \<and> a \<le> m)"
    using verify_otp_kv_cases [of u t c m r]
  proof (elim disjE exE conjE)
    assume "kv (snd (verify_otp u t c m r)) = kv r"
    then show ?thesis using inv by simp
  next
    assume "kv (snd (verify_otp u t c m r)) = (kv r)(otp_key u t := None)"
    then show ?thesis using inv by (auto split: if_splits)
  next
    fix e d a E
    assume e: "kv r (otp_key u t) = Some e" "val e = Obj d"
      and a: "map_of d ''attempts'' = Some (PyInt a)" "a < m"
      and kv': "kv (snd (verify_otp u t c m r)) = (kv r)(otp_key u t \<mapsto>
              \<lparr>val = Obj (AList.update ''attempts'' (PyInt (a + 1)) d),
               expires_at = Some E\<rparr>)"
    have "0 \<le> a" using inv e a by fastforce
    then show ?thesis
      using inv a(2) unfolding kv' by (auto simp: update_conv' split: if_splits)
  qed
  then show ?thesis unfolding VerifyOtp otp_step.simps .
next
  case (Tick n)
  show ?thesis using inv unfolding Tick by (simp add: advance_def)
qed

lemma otp_run_preserves:
  assumes "0 \<le> m"
    and "\<forall>k e. kv r k = Some e \<longrightarrow>
           (\<exists>d a. val e = Obj d \<and> map_of d ''attempts'' = Some (PyInt a) \<and> 0 \<le> a \<and> a \<le> m)"
  shows "\<forall>k e. kv (otp_run m ops r) k = Some e \<longrightarrow>
           (\<exists>d a. val e = Obj d \<and> map_of d ''attempts'' = Some (PyInt a) \<and> 0 \<le> a \<and> a \<le> m)"
  using assms(2) unfolding otp_run_def
proof (induction ops arbitrary: r)
  case Nil
  then show ?case by simp
next
  case (Cons x xs)
  have "\<forall>k e. kv (otp_step m x r) k = Some e \<longrightarrow>
           (\<exists>d a. val e = Obj d \<and> map_of d ''attempts'' = Some (PyInt a) \<and> 0 \<le> a \<and> a \<le> m)"
    using otp_step_preserves [OF assms(1) Cons.prems] .
  from Cons.IH [OF this] show ?case by simp
qed

lemma ttl_floor:
  assumes "now + 500 \<le> E"
  shows "E \<le> now + (E - now + 500) div 1000 * 1000 + (499::nat)"
proof -
  define n where "n = E - now + 500"
  have "n mod 1000 < 1000" by simp
  moreover have "n = n div 1000 * 1000 + n mod 1000" by simp
  ultimately have "n \<le> n div 1000 * 1000 + 999" by linarith
  then show ?thesis using assms unfolding n_def by linarith
qed

lemma verify_all_wrong:
  assumes "schedule r = []"
    and "kv r (otp_key u t) = Some e" and "val e = Obj d" and "expires_at e = Some E"
    and "map_of d ''attempts'' = Some (PyInt a)"
    and "map_of d ''otp'' = Some (PyStr code)"
    and "\<forall>(delay, c) \<in> set calls. c \<noteq> code"
    and "a + int (length calls) \<le> m"
    and "clock r + sum_list (map fst calls) + 500 * length calls \<le> E"
    and "verify_all u t m calls r = (results, r')"
  shows "schedule r' = [] \<and> clock r' = clock r + sum_list (map fst calls)
       \<and> (\<exists>e' d' E'. kv r' (otp_key u t) = Some e' \<and> val e' = Obj d'
             \<and> expires_at e' = Some E' \<and> E \<le> E' + 500 * length calls
             \<and> map_of d' ''attempts'' = Some (PyInt (a + int (length calls)))
             \<and> map_of d' ''otp'' = Some (PyStr code))
       \<and> length results = length calls
       \<and> (\<forall>res \<in> set results. \<not> valid res)
       \<and> (calls \<noteq> [] \<longrightarrow> last results =
             \<lparr>valid = False,
              message = ''Invalid OTP. '' @ str_int (m - (a + int (length calls))) @ '' attempts left'',
              attempts_left = m - (a + int (length calls))\<rparr>)"
  using assms
proof (induction calls arbitrary: r e d a E results)
  case Nil
  then show ?case by simp
next
  case (Cons x calls)
  obtain delay c where x: "x = (delay, c)" by (cases x)
  let ?r0 = "advance delay r"
  let ?E1 = "clock ?r0 + (E - clock ?r0 + 500) div 1000 * 1000"
  let ?d1 = "AList.update ''attempts'' (PyInt (a + 1)) d"
  let ?e1 = "\<lparr>val = Obj ?d1, expires_at = Some ?E1\<rparr>"
  let ?r1 = "?r0\<lparr>kv := (kv ?r0)(otp_key u t \<mapsto> ?e1)\<rparr>"
  have wrong: "PyStr code \<noteq> PyStr c" using Cons.prems(7) x by auto
  have f0: "schedule ?r0 = []" using Cons.prems(1) by (simp add: advance_def)
  have slack: "clock ?r0 + 500 \<le> E" using Cons.prems(9) x by (simp add: advance_def)
  have l0: "live ?r0 (otp_key u t) = Some e"
    using Cons.prems(2,4) slack by (simp add: live_def advance_def)
  have am: "a < m" using Cons.prems(8) by simp
  have step: "verify_otp u t c m ?r0 =
      (\<lparr>valid = False,
        message = ''Invalid OTP. '' @ str_int (m - (a + 1)) @ '' attempts left'',
        attempts_left = m - (a + 1)\<rparr>, ?r1)"
    using verify_otp_mismatch [OF f0 l0 Cons.prems(3,4,5) am Cons.prems(6) wrong slack] .
  obtain rest where rest: "verify_all u t m calls ?r1 = (rest, r')"
    and results: "results = \<lparr>valid = False,
        message = ''Invalid OTP. '' @ str_int (m - (a + 1)) @ '' attempts left'',
        attempts_left = m - (a + 1)\<rparr> # rest"
    using Cons.prems(10) step unfolding x
    by (auto simp: Let_def split: prod.splits)
  have drift: "E \<le> ?E1 + 499" using ttl_floor [OF slack] .
  have IH: "schedule r' = [] \<and> clock r' = clock ?r1 + sum_list (map fst calls)
       \<and> (\<exists>e' d' E'. kv r' (otp_key u t) = Some e' \<and> val e' = Obj d'
             \<and> expires_at e' = Some E' \<and> ?E1 \<le> E' + 500 * length calls
             \<and> map_of d' ''attempts'' = Some (PyInt (a + 1 + int (length calls)))
             \<and> map_of d' ''otp'' = Some (PyStr code))
       \<and> length rest = length calls
       \<and> (\<forall>res \<in> set rest. \<not> valid res)
       \<and> (calls \<noteq> [] \<longrightarrow> last rest =
             \<lparr>valid = False,
              message = ''Invalid OTP. '' @ str_int (m - (a + 1 + int (length calls))) @ '' attempts left'',
              attempts_left = m - (a + 1 + int (length calls))\<rparr>)"
  proof (rule Cons.IH [of ?r1 ?e1 ?d1 ?E1 "a + 1" rest])
    show "schedule ?r1 = []" using f0 by simp
    show "kv ?r1 (otp_key u t) = Some ?e1" by simp
    show "val ?e1 = Obj ?d1" by simp
    show "expires_at ?e1 = Some ?E1" by simp
    show "map_of ?d1 ''attempts'' = Some (PyInt (a + 1))" by (simp add: update_conv')
    show "map_of ?d1 ''otp'' = Some (PyStr code)"
      using Cons.prems(6) by (simp add: update_conv')
    show "\<forall>(delay, c) \<in> set calls. c \<noteq> code" using Cons.prems(7) by simp
    show "a + 1 + int (length calls) \<le> m" using Cons.prems(8) by simp
    have "clock ?r0 + sum_list (map fst calls) + 500 * length calls + 500 \<le> E"
      using Cons.prems(9) x by (simp add: advance_def)
    then show "clock ?r1 + sum_list (map fst calls) + 500 * length calls \<le> ?E1"
      using drift by simp
    show "verify_all u t m calls ?r1 = (rest, r')" by (rule rest)
  qed
  then obtain e' d' E' where rec: "kv r' (otp_key u t) = Some e'" "val e' = Obj d'"
      "expires_at e' = Some E'" "?E1 \<le> E' + 500 * length calls"
      "map_of d' ''attempts'' = Some (PyInt (a + 1 + int (length calls)))"
      "map_of d' ''otp'' = Some (PyStr code)"
    by blast
  have far: "E \<le> E' + 500 * length (x # calls)" using rec(4) drift by simp
  have cnt: "a + 1 + int (length calls) = a + int (length (x # calls))" by simp
  have kept: "\<exists>e' d' E'. kv r' (otp_key u t) = Some e' \<and> val e' = Obj d'
             \<and> expires_at e' = Some E' \<and> E \<le> E' + 500 * length (x # calls)
             \<and> map_of d' ''attempts'' = Some (PyInt (a + int (length (x # calls))))
             \<and> map_of d' ''otp'' = Some (PyStr code)"
    using rec(1,2,3,5,6) far unfolding cnt by blast
  have times: "schedule r' = [] \<and> clock r' = clock r + sum_list (map fst (x # calls))"
    using IH x by (simp add: advance_def)
  have lens: "length results = length (x # calls) \<and> (\<forall>res \<in> set results. \<not> valid res)"
    using IH results by simp
  have final: "last results =
             \<lparr>valid = False,
              message = ''Invalid OTP. '' @ str_int (m - (a + int (length (x # calls)))) @ '' attempts left'',
              attempts_left = m - (a + int (length (x # calls)))\<rparr>"
  proof (cases "calls = []")
    case True
    then have "rest = []" using IH by simp
    then show ?thesis using True results by simp
  next
    case False
    then have "rest \<noteq> []" using IH by auto
    then show ?thesis using IH False results unfolding cnt by simp
  qed
  show ?case using times kept lens final by (elim conjE, intro conjI impI) assumption+
qed

lemma str_int_0: "str_int 0 = ''0''"
  by (simp add: str_int_def digits.simps)

text \<open>
  Exhaustion where the rewrite of the record goes through: a record freshly written by
  \<^verbatim>\<open>store_otp\<close>, the store reachable, and \<open>max_attempts\<close> calls with wrong codes, each made
  with half a second of TTL to spare. Every call fails, the last reports 0 attempts left,
  and the next call, whatever its code, finds the maximum exceeded and deletes the record.
\<close>

lemma otp_exhaustion_with_ttl_to_spare:
  assumes "schedule r0 = []"
    and "store_otp u code t mins r0 = (True, r1)"
    and "1 \<le> m" and "int (length calls) = m"
    and "\<forall>(delay, c) \<in> set calls. c \<noteq> code"
    and "sum_list (map fst calls) + 500 * length calls + delay' \<le> nat (mins * 60) * 1000"
    and "verify_all u t m calls r1 = (results, r2)"
  shows "(\<forall>res \<in> set results. \<not> valid res)
       \<and> last results =
           \<lparr>valid = False, message = ''Invalid OTP. 0 attempts left'', attempts_left = 0\<rparr>
       \<and> verify_otp u t c' m (advance delay' r2) =
           (\<lparr>valid = False, message = ''Maximum OTP attempts exceeded'', attempts_left = 0\<rparr>,
            (advance delay' r2)\<lparr>kv := (kv r2)(otp_key u t := None)\<rparr>)
       \<and> live ((advance delay' r2)\<lparr>kv := (kv r2)(otp_key u t := None)\<rparr>) (otp_key u t) = None"
proof -
  let ?d = "[(''otp'', PyStr code), (''transaction_id'', PyStr t),
             (''user_id'', PyStr u), (''attempts'', PyInt 0)]"
  let ?E = "clock r1 + nat (mins * 60) * 1000"
  let ?e = "\<lparr>val = Obj ?d, expires_at = Some ?E\<rparr>"
  note st = store_otp_ok [OF assms(2)]
  have f1: "schedule r1 = []" using st assms(1) by simp
  have k1: "kv r1 (otp_key u t) = Some ?e" using st by simp
  have nonempty: "calls \<noteq> []" using assms(3,4) by auto
  have seq: "schedule r2 = [] \<and> clock r2 = clock r1 + sum_list (map fst calls)
       \<and> (\<exists>e' d' E'. kv r2 (otp_key u t) = Some e' \<and> val e' = Obj d'
             \<and> expires_at e' = Some E' \<and> ?E \<le> E' + 500 * length calls
             \<and> map_of d' ''attempts'' = Some (PyInt (0 + int (length calls)))
             \<and> map_of d' ''otp'' = Some (PyStr code))
       \<and> length results = length calls
       \<and> (\<forall>res \<in> set results. \<not> valid res)
       \<and> (calls \<noteq> [] \<longrightarrow> last results =
             \<lparr>valid = False,
              message = ''Invalid OTP. '' @ str_int (m - (0 + int (length calls))) @ '' attempts left'',
              attempts_left = m - (0 + int (length calls))\<rparr>)"
  proof (rule verify_all_wrong [OF f1 k1 _ _ _ _ assms(5) _ _ assms(7)])
    show "val ?e = Obj ?d" by simp
    show "expires_at ?e = Some ?E" by simp
    show "map_of ?d ''attempts'' = Some (PyInt 0)" by simp
    show "map_of ?d ''otp'' = Some (PyStr code)" by simp
    show "0 + int (length calls) \<le> m" using assms(4) by simp
    show "clock r1 + sum_list (map fst calls) + 500 * length calls \<le> ?E"
      using assms(6) by simp
  qed
  then obtain e' d' E' where rec: "kv r2 (otp_key u t) = Some e'" "val e' = Obj d'"
      "expires_at e' = Some E'" "?E \<le> E' + 500 * length calls"
      "map_of d' ''attempts'' = Some (PyInt m)"
    using assms(4) by auto
  have f2: "schedule (advance delay' r2) = []" using seq by (simp add: advance_def)
  have "clock r2 + delay' \<le> E'" using rec(4) seq assms(6) by simp
  then have l2: "live (advance delay' r2) (otp_key u t) = Some e'"
    using rec(1,3) by (simp add: live_def advance_def)
  have last: "last results =
           \<lparr>valid = False, message = ''Invalid OTP. 0 attempts left'', attempts_left = 0\<rparr>"
    using seq nonempty assms(4) by (simp add: str_int_0)
  have next_call: "verify_otp u t c' m (advance delay' r2) =
           (\<lparr>valid = False, message = ''Maximum OTP attempts exceeded'', attempts_left = 0\<rparr>,
            (advance delay' r2)\<lparr>kv := (kv r2)(otp_key u t := None)\<rparr>)"
    using verify_otp_exhausted [OF f2 l2 rec(2,5), of m c'] by (simp add: advance_def)
  have gone: "live ((advance delay' r2)\<lparr>kv := (kv r2)(otp_key u t := None)\<rparr>) (otp_key u t) = None"
    by (simp add: live_def)
  show ?thesis using seq last next_call gone by blast
qed

text \<open>
  Claim C2 fails on the code. A record with 400 milliseconds left: three wrong codes are
  each answered "OTP verification failed" (the TTL reads 0 and \<^verbatim>\<open>SETEX\<close> refuses it), none
  is counted and the store is left as it was; the right code sent next is accepted instead
  of meeting "Maximum OTP attempts exceeded".
\<close>

theorem otp_exhaustion_uncounted:
  "map_option val (live expiring_store (otp_key ''alice'' ''TXN1'')) =
     Some (Obj [(''otp'', PyStr ''123456''), (''transaction_id'', PyStr ''TXN1''),
                (''user_id'', PyStr ''alice''), (''attempts'', PyInt 0)])
   \<and> verify_all ''alice'' ''TXN1'' 3 [(0, ''000000''), (0, ''111111''), (0, ''222222'')]
        expiring_store =
       ([\<lparr>valid = False, message = ''OTP verification failed'', attempts_left = 0\<rparr>,
         \<lparr>valid = False, message = ''OTP verification failed'', attempts_left = 0\<rparr>,
         \<lparr>valid = False, message = ''OTP verification failed'', attempts_left = 0\<rparr>],
        expiring_store)
   \<and> fst (verify_otp ''alice'' ''TXN1'' ''123456'' 3 expiring_store) =
       \<lparr>valid = True, message = ''OTP verified successfully'', attempts_left = 3\<rparr>"
  by (simp add: expiring_store_def eval_defs)

lemma ttl_whole_seconds:
  assumes "now < E" and "1000 dvd E - now"
  shows "now + (E - now + 500) div 1000 * 1000 = (E::nat)" and "now + 500 \<le> E"
proof -
  obtain k where k: "E - now = 1000 * k" using assms(2) by (auto simp: dvd_def)
  then have "0 < k" using assms(1) by (cases k) auto
  have "(1000 * k + 500) div 1000 = k" by simp
  then show "now + (E - now + 500) div 1000 * 1000 = E"
    using k assms(1) by simp
  show "now + 500 \<le> E" using k \<open>0 < k\<close> assms(1) by linarith
qed

text \<open>
  Claim C3. Starting from an empty store, after any history of \<^verbatim>\<open>store_otp\<close> and
  \<^verbatim>\<open>verify_otp\<close> calls under one maximum \<open>m \<ge> 0\<close> (with any delays between and within
  the calls and any connection faults), every record still in the store has an attempt
  counter from 0 to \<open>m\<close>. \<^verbatim>\<open>store_otp\<close> writes the counter 0; a verification leaves the
  store as it is, or deletes the record, or adds exactly 1 to a counter that was below
  \<open>m\<close>. With the store reachable, a wrong code on a counter below \<open>m\<close> adds 1 when the
  record has half a second or more to live (and keeps the expiry instant when the time left
  is a whole number of seconds) and leaves the store as it was when it has less; a counter
  at or above \<open>m\<close> makes the call delete the record.
\<close>

theorem otp_attempts_invariant:
  assumes "0 \<le> m" and "kv r0 = Map.empty"
  shows "(\<forall>k e. live (otp_run m ops r0) k = Some e \<longrightarrow>
            (\<exists>d a. val e = Obj d \<and> map_of d ''attempts'' = Some (PyInt a) \<and> 0 \<le> a \<and> a \<le> m))
       \<and> (\<forall>u c t mins r r'. store_otp u c t mins r = (True, r') \<longrightarrow>
            map_option val (live r' (otp_key u t)) =
              Some (Obj [(''otp'', PyStr c), (''transaction_id'', PyStr t),
                         (''user_id'', PyStr u), (''attempts'', PyInt 0)]))
       \<and> (\<forall>u t c r.
            kv (snd (verify_otp u t c m r)) = kv r
          \<or> kv (snd (verify_otp u t c m r)) = (kv r)(otp_key u t := None)
          \<or> (\<exists>e d a E. kv r (otp_key u t) = Some e \<and> val e = Obj d
                \<and> map_of d ''attempts'' = Some (PyInt a) \<and> a < m
                \<and> kv (snd (verify_otp u t c m r)) = (kv r)(otp_key u t \<mapsto>
                     \<lparr>val = Obj (AList.update ''attempts'' (PyInt (a + 1)) d),
                      expires_at = Some E\<rparr>)))
       \<and> (\<forall>u t c r e d a E v. schedule r = [] \<and> live r (otp_key u t) = Some e
              \<and> val e = Obj d \<and> expires_at e = Some E
              \<and> map_of d ''attempts'' = Some (PyInt a) \<and> a < m
              \<and> map_of d ''otp'' = Some v \<and> v \<noteq> PyStr c \<longrightarrow>
            (clock r + 500 \<le> E \<longrightarrow>
               live (snd (verify_otp u t c m r)) (otp_key u t) =
                 Some \<lparr>val = Obj (AList.update ''attempts'' (PyInt (a + 1)) d),
                       expires_at = Some (clock r + (E - clock r + 500) div 1000 * 1000)\<rparr>)
          \<and> (clock r < E \<and> 1000 dvd E - clock r \<longrightarrow>
               live (snd (verify_otp u t c m r)) (otp_key u t) =
                 Some \<lparr>val = Obj (AList.update ''attempts'' (PyInt (a + 1)) d),
                       expires_at = Some E\<rparr>)
          \<and> (E < clock r + 500 \<longrightarrow> snd (verify_otp u t c m r) = r))
       \<and> (\<forall>u t c r e d a. schedule r = [] \<and> live r (otp_key u t) = Some e
              \<and> val e = Obj d \<and> map_of d ''attempts'' = Some (PyInt a) \<and> m \<le> a \<longrightarrow>
            kv (snd (verify_otp u t c m r)) = (kv r)(otp_key u t := None))"
proof -
  have start: "\<forall>k e. kv r0 k = Some e \<longrightarrow>
           (\<exists>d a. val e = Obj d \<and> map_of d ''attempts'' = Some (PyInt a) \<and> 0 \<le> a \<and> a \<le> m)"
    using assms(2) by simp
  have inv: "\<forall>k e. live (otp_run m ops r0) k = Some e \<longrightarrow>
            (\<exists>d a. val e = Obj d \<and> map_of d ''attempts'' = Some (PyInt a) \<and> 0 \<le> a \<and> a \<le> m)"
    using otp_run_preserves [OF assms(1) start, of ops] live_SomeD by blast
  have fresh: "\<forall>u c t mins r r'. store_otp u c t mins r = (True, r') \<longrightarrow>
            map_option val (live r' (otp_key u t)) =
              Some (Obj [(''otp'', PyStr c), (''transaction_id'', PyStr t),
                         (''user_id'', PyStr u), (''attempts'', PyInt 0)])"
  proof (intro allI impI)
    fix u c t mins r r'
    assume "store_otp u c t mins r = (True, r')"
    from store_otp_ok [OF this] show "map_option val (live r' (otp_key u t)) =
              Some (Obj [(''otp'', PyStr c), (''transaction_id'', PyStr t),
                         (''user_id'', PyStr u), (''attempts'', PyInt 0)])"
      by (simp add: live_def)
  qed
  have shape: "\<forall>u t c r.
            kv (snd (verify_otp u t c m r)) = kv r
          \<or> kv (snd (verify_otp u t c m r)) = (kv r)(otp_key u t := None)
          \<or> (\<exists>e d a E. kv r (otp_key u t) = Some e \<and> val e = Obj d
                \<and> map_of d ''attempts'' = Some (PyInt a) \<and> a < m
                \<and> kv (snd (verify_otp u t c m r)) = (kv r)(otp_key u t \<mapsto>
                     \<lparr>val = Obj (AList.update ''attempts'' (PyInt (a + 1)) d),
                      expires_at = Some E\<rparr>))"
    using verify_otp_kv_cases by blast
  have incr: "\<forall>u t c r e d a E v. schedule r = [] \<and> live r (otp_key u t) = Some e
              \<and> val e = Obj d \<and> expires_at e = Some E
              \<and> map_of d ''attempts'' = Some (PyInt a) \<and> a < m
              \<and> map_of d ''otp'' = Some v \<and> v \<noteq> PyStr c \<longrightarrow>
            (clock r + 500 \<le> E \<longrightarrow>
               live (snd (verify_otp u t c m r)) (otp_key u t) =
                 Some \<lparr>val = Obj (AList.update ''attempts'' (PyInt (a + 1)) d),
                       expires_at = Some (clock r + (E - clock r + 500) div 1000 * 1000)\<rparr>)
          \<and> (clock r < E \<and> 1000 dvd E - clock r \<longrightarrow>
               live (snd (verify_otp u t c m r)) (otp_key u t) =
                 Some \<lparr>val = Obj (AList.update ''attempts'' (PyInt (a + 1)) d),
                       expires_at = Some E\<rparr>)
          \<and> (E < clock r + 500 \<longrightarrow> snd (verify_otp u t c m r) = r)"
  proof (intro allI impI, elim conjE)
    fix u t c r e d a E v
    assume h: "schedule r = []" "live r (otp_key u t) = Some e" "val e = Obj d"
      "expires_at e = Some E" "map_of d ''attempts'' = Some (PyInt a)" "a < m"
      "map_of d ''otp'' = Some v" "v \<noteq> PyStr c"
    have counted: "live (snd (verify_otp u t c m r)) (otp_key u t) =
                 Some \<lparr>val = Obj (AList.update ''attempts'' (PyInt (a + 1)) d),
                       expires_at = Some (clock r + (E - clock r + 500) div 1000 * 1000)\<rparr>"
      if "clock r + 500 \<le> E"
      using verify_otp_mismatch [OF h that] by (simp add: live_def)
    have whole: "live (snd (verify_otp u t c m r)) (otp_key u t) =
                 Some \<lparr>val = Obj (AList.update ''attempts'' (PyInt (a + 1)) d),
                       expires_at = Some E\<rparr>"
      if "clock r < E \<and> 1000 dvd E - clock r"
      using counted ttl_whole_seconds [of "clock r" E] that by simp
    have uncounted: "snd (verify_otp u t c m r) = r" if "E < clock r + 500"
      using verify_otp_uncounted [OF h that] by simp
    show "(clock r + 500 \<le> E \<longrightarrow>
               live (snd (verify_otp u t c m r)) (otp_key u t) =
                 Some \<lparr>val = Obj (AList.update ''attempts'' (PyInt (a + 1)) d),
                       expires_at = Some (clock r + (E - clock r + 500) div 1000 * 1000)\<rparr>)
          \<and> (clock r < E \<and> 1000 dvd E - clock r \<longrightarrow>
               live (snd (verify_otp u t c m r)) (otp_key u t) =
                 Some \<lparr>val = Obj (AList.update ''attempts'' (PyInt (a + 1)) d),
                       expires_at = Some E\<rparr>)
          \<and> (E < clock r + 500 \<longrightarrow> snd (verify_otp u t c m r) = r)"
      using counted whole uncounted by (intro conjI impI)
  qed
  have drop: "\<forall>u t c r e d a. schedule r = [] \<and> live r (otp_key u t) = Some e
              \<and> val e = Obj d \<and> map_of d ''attempts'' = Some (PyInt a) \<and> m \<le> a \<longrightarrow>
            kv (snd (verify_otp u t c m r)) = (kv r)(otp_key u t := None)"
  proof (intro allI impI, elim conjE)
    fix u t c r e d a
    assume h: "schedule r = []" "live r (otp_key u t) = Some e" "val e = Obj d"
      "map_of d ''attempts'' = Some (PyInt a)" "m \<le> a"
    show "kv (snd (verify_otp u t c m r)) = (kv r)(otp_key u t := None)"
      using verify_otp_exhausted [OF h, of c] by simp
  qed
  show ?thesis using inv fresh shape incr drop by (intro conjI)
qed

text \<open>A history with two wrong codes: the counter of the record is 2.\<close>

theorem otp_attempts_invariant_witness:
  "(0::int) \<le> 3 \<and> kv empty_store = Map.empty
   \<and> map_option val (live (otp_run 3
         [StoreOtp ''alice'' ''123456'' ''TXN1'' 5,
          VerifyOtp ''alice'' ''TXN1'' ''000000'', Tick 7000,
          VerifyOtp ''alice'' ''TXN1'' ''111111''] empty_store) (otp_key ''alice'' ''TXN1'')) =
       Some (Obj [(''otp'', PyStr ''123456''), (''transaction_id'', PyStr ''TXN1''),
                  (''user_id'', PyStr ''alice''), (''attempts'', PyInt 2)])
   \<and> (\<exists>a. map_of [(''otp'', PyStr ''123456''), (''transaction_id'', PyStr ''TXN1''),
                  (''user_id'', PyStr ''alice''), (''attempts'', PyInt 2)] ''attempts''
            = Some (PyInt a) \<and> 0 \<le> a \<and> a \<le> 3)"
proof -
  let ?ops = "[StoreOtp ''alice'' ''123456'' ''TXN1'' 5,
          VerifyOtp ''alice'' ''TXN1'' ''000000'', Tick 7000,
          VerifyOtp ''alice'' ''TXN1'' ''111111'']"
  let ?d = "[(''otp'', PyStr ''123456''), (''transaction_id'', PyStr ''TXN1''),
                  (''user_id'', PyStr ''alice''), (''attempts'', PyInt 2)]"
  have h1: "(0::int) \<le> 3" by simp
  have h2: "kv empty_store = Map.empty" by (simp add: empty_store_def)
  have ev: "live (otp_run 3 ?ops empty_store) (otp_key ''alice'' ''TXN1'') =
       Some \<lparr>val = Obj ?d, expires_at = Some 300000\<rparr>"
    by (simp add: otp_run_def eval_defs)
  have "\<exists>d a. val \<lparr>val = Obj ?d, expires_at = Some (300000::nat)\<rparr> = Obj d
      \<and> map_of d ''attempts'' = Some (PyInt a) \<and> 0 \<le> a \<and> a \<le> 3"
    using otp_attempts_invariant [OF h1 h2, of ?ops, THEN conjunct1, rule_format, OF ev] .
  then show ?thesis using h2 ev by simp
qed

section \<open>The fixed window\<close>












section \<open>Store outages\<close>

text \<open>
  Claim C10. Whenever a command of the store raises during a verification call (the part
  of the schedule the call consumes holds a fault), and whenever anything else raises
  inside the call, \<^verbatim>\<open>verify_otp\<close> returns invalid with the message
  "OTP verification failed" and 0 attempts left; a call that reports a valid code has met
  no fault.
\<close>

theorem verify_otp_fails_closed:
  "(\<forall>pre. schedule r = pre @ schedule (snd (verify_otp u t c m r)) \<and> True \<in> snd ` set pre \<longrightarrow>
      fst (verify_otp u t c m r) =
        \<lparr>valid = False, message = ''OTP verification failed'', attempts_left = 0\<rparr>)
   \<and> (\<forall>e. fst (verify_otp_try u t c m r) = Inl e \<longrightarrow>
      fst (verify_otp u t c m r) =
        \<lparr>valid = False, message = ''OTP verification failed'', attempts_left = 0\<rparr>)
   \<and> (valid (fst (verify_otp u t c m r)) \<longrightarrow>
        (\<forall>pre. schedule r = pre @ schedule (snd (verify_otp u t c m r)) \<longrightarrow> True \<notin> snd ` set pre))"
proof -
  have s: "snd (verify_otp u t c m r) = snd (verify_otp_try u t c m r)"
    by (simp add: verify_otp_def split: prod.splits sum.splits)
  have exn: "fst (verify_otp u t c m r) =
        \<lparr>valid = False, message = ''OTP verification failed'', attempts_left = 0\<rparr>"
    if "isl (fst (verify_otp_try u t c m r))"
    using that by (auto simp: verify_otp_def isl_def split: prod.splits sum.splits)
  have fault: "fst (verify_otp u t c m r) =
        \<lparr>valid = False, message = ''OTP verification failed'', attempts_left = 0\<rparr>"
    if "schedule r = pre @ schedule (snd (verify_otp u t c m r))" and "True \<in> snd ` set pre" for pre
  proof -
    have "isl (fst (verify_otp_try u t c m r))"
      using fault_safeD [OF fault_safe_verify_otp_try] that unfolding s by blast
    then show ?thesis by (rule exn)
  qed
  have "fst (verify_otp u t c m r) =
        \<lparr>valid = False, message = ''OTP verification failed'', attempts_left = 0\<rparr>"
    if "fst (verify_otp_try u t c m r) = Inl e" for e
    using exn that by simp
  moreover have "True \<notin> snd ` set pre"
    if "valid (fst (verify_otp u t c m r))"
      and "schedule r = pre @ schedule (snd (verify_otp u t c m r))" for pre
  proof
    assume "True \<in> snd ` set pre"
    then have "fst (verify_otp u t c m r) =
        \<lparr>valid = False, message = ''OTP verification failed'', attempts_left = 0\<rparr>"
      by (rule fault [OF that(2)])
    then show False using that(1) by simp
  qed
  ultimately show ?thesis using fault by blast
qed

text \<open>The read and the TTL query succeed, the write back raises.\<close>

theorem verify_otp_fails_closed_witness:
  "schedule flaky_store =
      [(0, False), (0, False), (0, True)] @ schedule (snd (verify_otp ''alice'' ''TXN1'' ''000000'' 3 flaky_store))
   \<and> True \<in> snd ` set [(0::nat, False), (0, False), (0, True)]
   \<and> fst (verify_otp ''alice'' ''TXN1'' ''000000'' 3 flaky_store) =
        \<lparr>valid = False, message = ''OTP verification failed'', attempts_left = 0\<rparr>"
proof -
  have h1: "schedule flaky_store =
      [(0, False), (0, False), (0, True)] @ schedule (snd (verify_otp ''alice'' ''TXN1'' ''000000'' 3 flaky_store))"
    by (simp add: flaky_store_def eval_defs)
  have h2: "True \<in> snd ` set [(0::nat, False), (0, False), (0, True)]" by simp
  show ?thesis
    using verify_otp_fails_closed [of flaky_store "''alice''" "''TXN1''" "''000000''" 3,
        THEN conjunct1, rule_format, OF conjI [OF h1 h2]] h1
    by simp
qed

text \<open>
  Claim C6. Whenever a command of the store raises during the call, \<^verbatim>\<open>check_rate_limit\<close>
  allows the request (with \<open>max_requests\<close> remaining and the whole window as reset time),
  for every identifier and action, and \<^verbatim>\<open>is_token_blacklisted\<close> answers \<open>False\<close>, for every
  token; the authentication dependency then decides as it does without a blacklist.
\<close>

theorem store_outage_fails_open:
  "(\<forall>pre. schedule r = pre @ schedule (snd (check_rate_limit u a m w r)) \<and> True \<in> snd ` set pre \<longrightarrow>
      fst (check_rate_limit u a m w r) =
        \<lparr>allowed = True, remaining = m, reset_in = w * 60\<rparr>)
   \<and> (\<forall>pre. schedule r = pre @ schedule (snd (is_token_blacklisted tok r)) \<and> True \<in> snd ` set pre \<longrightarrow>
      fst (is_token_blacklisted tok r) = False)
   \<and> (\<forall>pre. schedule r = pre @ schedule (snd (get_current_user True dec tok r))
        \<and> True \<in> snd ` set pre \<longrightarrow>
      fst (fst (get_current_user True dec tok r)) =
        fst (fst (get_current_user False dec tok r)))"
proof (intro conjI allI impI; elim conjE)
  fix pre
  assume h: "schedule r = pre @ schedule (snd (check_rate_limit u a m w r))" "True \<in> snd ` set pre"
  have s: "snd (check_rate_limit u a m w r) = snd (check_rate_limit_try u a m w r)"
    by (simp add: check_rate_limit_def split: prod.splits sum.splits)
  have "isl (fst (check_rate_limit_try u a m w r))"
    using fault_safeD [OF fault_safe_check_rate_limit_try] h unfolding s by blast
  then show "fst (check_rate_limit u a m w r) =
        \<lparr>allowed = True, remaining = m, reset_in = w * 60\<rparr>"
    by (auto simp: check_rate_limit_def isl_def split: prod.splits sum.splits)
next
  fix pre
  assume h: "schedule r = pre @ schedule (snd (is_token_blacklisted tok r))" "True \<in> snd ` set pre"
  have s: "snd (is_token_blacklisted tok r) = snd (is_token_blacklisted_try tok r)"
    by (simp add: is_token_blacklisted_def split: prod.splits sum.splits)
  have "isl (fst (is_token_blacklisted_try tok r))"
    using fault_safeD [OF fault_safe_is_token_blacklisted_try] h unfolding s by blast
  then show "fst (is_token_blacklisted tok r) = False"
    by (auto simp: is_token_blacklisted_def isl_def split: prod.splits sum.splits)
next
  fix pre
  assume h: "schedule r = pre @ schedule (snd (get_current_user True dec tok r))" "True \<in> snd ` set pre"
  have s: "snd (get_current_user True dec tok r) = snd (is_token_blacklisted_try tok r)"
    by (simp add: get_current_user_def is_token_blacklisted_def Let_def
        split: prod.splits sum.splits)
  have "isl (fst (is_token_blacklisted_try tok r))"
    using fault_safeD [OF fault_safe_is_token_blacklisted_try] h unfolding s by blast
  then show "fst (fst (get_current_user True dec tok r)) =
        fst (fst (get_current_user False dec tok r))"
    by (auto simp: get_current_user_def is_token_blacklisted_def isl_def Let_def
        split: prod.splits sum.splits)
qed

text \<open>
  A counter already at its limit is allowed when the TTL query raises, and a revoked token
  counts as not revoked when \<^verbatim>\<open>EXISTS\<close> raises.
\<close>

theorem store_outage_fails_open_witness:
  "schedule limited_store =
     [(0, False), (0, True)] @ schedule (snd (check_rate_limit ''alice'' ''login'' 2 1 limited_store))
   \<and> True \<in> snd ` set [(0::nat, False), (0, True)]
   \<and> map_option val (live limited_store (rate_key ''alice'' ''login'')) = Some (Num 2)
   \<and> fst (check_rate_limit ''alice'' ''login'' 2 1 limited_store) =
        \<lparr>allowed = True, remaining = 2, reset_in = 60\<rparr>
   \<and> schedule (revoked_store\<lparr>schedule := [(0, True)]\<rparr>) =
        [(0, True)] @ schedule (snd (is_token_blacklisted ''tok'' (revoked_store\<lparr>schedule := [(0, True)]\<rparr>)))
   \<and> live revoked_store (token_key ''tok'') \<noteq> None
   \<and> fst (is_token_blacklisted ''tok'' (revoked_store\<lparr>schedule := [(0, True)]\<rparr>)) = False"
proof -
  have h1: "schedule limited_store =
     [(0, False), (0, True)] @ schedule (snd (check_rate_limit ''alice'' ''login'' 2 1 limited_store))"
    by (simp add: limited_store_def check_rate_limit_def check_rate_limit_try_def io_defs
        live_def advance_def empty_store_def)
  have h2: "True \<in> snd ` set [(0::nat, False), (0, True)]" by simp
  have c: "map_option val (live limited_store (rate_key ''alice'' ''login'')) = Some (Num 2)"
    by (simp add: limited_store_def check_rate_limit_def check_rate_limit_try_def io_defs
        live_def advance_def empty_store_def)
  have h3: "schedule (revoked_store\<lparr>schedule := [(0, True)]\<rparr>) =
        [(0, True)] @ schedule (snd (is_token_blacklisted ''tok'' (revoked_store\<lparr>schedule := [(0, True)]\<rparr>)))"
    by (simp add: is_token_blacklisted_def is_token_blacklisted_try_def io_defs)
  have h4: "True \<in> snd ` set [(0::nat, True)]" by simp
  have b: "live revoked_store (token_key ''tok'') \<noteq> None"
    by (simp add: revoked_store_def blacklist_token_def blacklist_token_try_def io_defs
        live_def empty_store_def)
  note open1 = store_outage_fails_open [where r = limited_store and u = "''alice''" and a = "''login''"
      and m = 2 and w = 1,
      THEN conjunct1, rule_format, OF conjI [OF h1 h2]]
  note open2 = store_outage_fails_open [where r = "revoked_store\<lparr>schedule := [(0, True)]\<rparr>" and tok = "''tok''",
      THEN conjunct2, THEN conjunct1, rule_format, OF conjI [OF h3 h4]]
  show ?thesis using h1 c h3 b open1 open2 by simp
qed

section \<open>Token revocation\<close>

lemma verify_token_status:
  "verify_token dec tok ty = Inl e \<Longrightarrow> status_code (Inl e :: exn + 'a) = Some 401"
  by (auto simp: verify_token_def status_code_def
      split: sum.splits jwt_error.splits if_splits option.splits pyval.splits)

lemma capitalize_access: "capitalize ''access'' = ''Access''"
  by code_simp

lemma get_current_user_not_revoked:
  assumes "fst (is_token_blacklisted tok r) = False"
  shows "fst (fst (get_current_user svc dec tok r)) =
           fst (fst (get_current_user False dec tok r))"
  using assms
  by (cases "is_token_blacklisted tok r") (auto simp: get_current_user_def Let_def)

text \<open>
  Claim C5, as the code has it. With a registered, reachable store and the presented token
  on the blacklist, \<^verbatim>\<open>get_current_user\<close> raises the 401 error "Token has been revoked.
  Please login again.", whatever \<^verbatim>\<open>jwt.decode\<close> would say of the token: the answer is the
  same under every decoder, the blacklist is looked up first, on every request, and the
  token is never validated, let alone accepted. A token that is not revoked and fails
  validation is rejected with status 401 as well, under the detail text of its own failure:
  "Could not validate credentials: ..." for a bad signature and
  "Access token has expired. Please login again." for an expired one.
\<close>

theorem blacklisted_token_rejected:
  assumes "schedule r = []" and "live r (token_key tok) \<noteq> None"
  shows "get_current_user True dec tok r =
           ((Inl (HTTPException 401 ''Token has been revoked. Please login again.''),
             [BlacklistLookup tok]), r)
       \<and> (\<forall>dec'. get_current_user True dec' tok r = get_current_user True dec tok r)
       \<and> TokenValidation tok \<notin> set (snd (fst (get_current_user True dec tok r)))
       \<and> status_code (fst (fst (get_current_user True dec tok r))) = Some 401
       \<and> (\<forall>r2. hd (snd (fst (get_current_user True dec tok r2))) = BlacklistLookup tok)
       \<and> (\<forall>svc r2 e. verify_token dec tok ''access'' = Inl e
             \<and> fst (is_token_blacklisted tok r2) = False \<longrightarrow>
            fst (fst (get_current_user svc dec tok r2)) = Inl e
          \<and> status_code (fst (fst (get_current_user svc dec tok r2))) = Some 401)
       \<and> (\<forall>svc r2 reason. dec tok = Inl (JWTError reason)
             \<and> fst (is_token_blacklisted tok r2) = False \<longrightarrow>
            fst (fst (get_current_user svc dec tok r2)) =
              Inl (HTTPException 401 (''Could not validate credentials: '' @ reason)))
       \<and> (\<forall>svc r2. dec tok = Inl ExpiredSignatureError
             \<and> fst (is_token_blacklisted tok r2) = False \<longrightarrow>
            fst (fst (get_current_user svc dec tok r2)) =
              Inl (HTTPException 401 ''Access token has expired. Please login again.''))"
proof -
  have bl: "is_token_blacklisted tok r = (True, r)"
    using assms
    by (simp add: is_token_blacklisted_def is_token_blacklisted_try_def io_defs)
  have main: "get_current_user True dec' tok r =
           ((Inl (HTTPException 401 ''Token has been revoked. Please login again.''),
             [BlacklistLookup tok]), r)" for dec'
    using bl by (simp add: get_current_user_def)
  have same: "\<forall>dec'. get_current_user True dec' tok r = get_current_user True dec tok r"
    using main by simp
  have first: "\<forall>r2. hd (snd (fst (get_current_user True dec tok r2))) = BlacklistLookup tok"
    by (simp add: get_current_user_def Let_def split: prod.splits)
  have invalid: "\<forall>svc r2 e. verify_token dec tok ''access'' = Inl e
             \<and> fst (is_token_blacklisted tok r2) = False \<longrightarrow>
            fst (fst (get_current_user svc dec tok r2)) = Inl e
          \<and> status_code (fst (fst (get_current_user svc dec tok r2))) = Some 401"
  proof (intro allI impI, elim conjE)
    fix svc r2 e
    assume h: "verify_token dec tok ''access'' = Inl e" "fst (is_token_blacklisted tok r2) = False"
    have eq: "fst (fst (get_current_user svc dec tok r2)) =
                fst (fst (get_current_user False dec tok r2))"
      by (rule get_current_user_not_revoked [OF h(2)])
    have "fst (fst (get_current_user svc dec tok r2)) = Inl e"
      unfolding eq using h(1) by (simp add: get_current_user_def)
    then show "fst (fst (get_current_user svc dec tok r2)) = Inl e
          \<and> status_code (fst (fst (get_current_user svc dec tok r2))) = Some 401"
      using verify_token_status [OF h(1)] by simp
  qed
  have bad_signature: "\<forall>svc r2 reason. dec tok = Inl (JWTError reason)
             \<and> fst (is_token_blacklisted tok r2) = False \<longrightarrow>
            fst (fst (get_current_user svc dec tok r2)) =
              Inl (HTTPException 401 (''Could not validate credentials: '' @ reason))"
  proof (intro allI impI, elim conjE)
    fix svc r2 reason
    assume h: "dec tok = Inl (JWTError reason)" "fst (is_token_blacklisted tok r2) = False"
    have eq: "fst (fst (get_current_user svc dec tok r2)) =
                fst (fst (get_current_user False dec tok r2))"
      by (rule get_current_user_not_revoked [OF h(2)])
    show "fst (fst (get_current_user svc dec tok r2)) =
              Inl (HTTPException 401 (''Could not validate credentials: '' @ reason))"
      unfolding eq using h(1) by (simp add: get_current_user_def verify_token_def)
  qed
  have expired: "\<forall>svc r2. dec tok = Inl ExpiredSignatureError
             \<and> fst (is_token_blacklisted tok r2) = False \<longrightarrow>
            fst (fst (get_current_user svc dec tok r2)) =
              Inl (HTTPException 401 ''Access token has expired. Please login again.'')"
  proof (intro allI impI, elim conjE)
    fix svc r2
    assume h: "dec tok = Inl ExpiredSignatureError" "fst (is_token_blacklisted tok r2) = False"
    have eq: "fst (fst (get_current_user svc dec tok r2)) =
                fst (fst (get_current_user False dec tok r2))"
      by (rule get_current_user_not_revoked [OF h(2)])
    show "fst (fst (get_current_user svc dec tok r2)) =
              Inl (HTTPException 401 ''Access token has expired. Please login again.'')"
      unfolding eq using h(1) capitalize_access
      by (simp add: get_current_user_def verify_token_def del: capitalize.simps)
  qed
  have notv: "TokenValidation tok \<notin> set (snd (fst (get_current_user True dec tok r)))"
    unfolding main by simp
  have st: "status_code (fst (fst (get_current_user True dec tok r))) = Some 401"
    unfolding main by (simp add: status_code_def)
  show ?thesis
    using main [of dec] same notv st first invalid bad_signature expired
    by (intro conjI)
qed

text \<open>A revoked token that the decoder accepts: accepted without the blacklist, rejected with it.\<close>

theorem blacklisted_token_rejected_witness:
  "schedule revoked_store = [] \<and> live revoked_store (token_key ''tok'') \<noteq> None
   \<and> fst (fst (get_current_user False accepting_decoder ''tok'' revoked_store)) =
        Inr (PyStr ''alice'')
   \<and> fst (get_current_user True accepting_decoder ''tok'' revoked_store) =
        (Inl (HTTPException 401 ''Token has been revoked. Please login again.''),
         [BlacklistLookup ''tok''])"
proof -
  have h1: "schedule revoked_store = []"
    by (simp add: revoked_store_def blacklist_token_def blacklist_token_try_def io_defs
        empty_store_def)
  have h2: "live revoked_store (token_key ''tok'') \<noteq> None"
    by (simp add: revoked_store_def blacklist_token_def blacklist_token_try_def io_defs
        live_def empty_store_def)
  have ok: "fst (fst (get_current_user False accepting_decoder ''tok'' revoked_store)) =
        Inr (PyStr ''alice'')"
    by (simp add: get_current_user_def verify_token_def accepting_decoder_def)
  show ?thesis
    using blacklisted_token_rejected [OF h1 h2, of accepting_decoder, THEN conjunct1] h1 h2 ok
    by simp
qed

text \<open>
  Claim C5 as stated fails: the answer to a revoked token that is still valid and the answer
  to a token with a bad signature are both 401 errors, and they are not the same answer.
\<close>

theorem revoked_differs_from_invalid_counterexample:
  "fst (fst (get_current_user True accepting_decoder ''tok'' revoked_store)) =
     Inl (HTTPException 401 ''Token has been revoked. Please login again.'')
   \<and> fst (fst (get_current_user True rejecting_decoder ''tok'' empty_store)) =
     Inl (HTTPException 401 ''Could not validate credentials: Signature verification failed.'')
   \<and> fst (fst (get_current_user True accepting_decoder ''tok'' revoked_store)) \<noteq>
     fst (fst (get_current_user True rejecting_decoder ''tok'' empty_store))"
  by (simp add: get_current_user_def verify_token_def accepting_decoder_def
      rejecting_decoder_def revoked_store_def blacklist_token_def blacklist_token_try_def
      is_token_blacklisted_def is_token_blacklisted_try_def io_defs live_def empty_store_def)

section \<open>Sessions\<close>

lemma create_session_ok:
  assumes "create_session u sd mins r = (Some k, r')"
  shows "k = session_key u \<and> 0 < mins \<and> clock r \<le> clock r'
       \<and> (schedule r = [] \<longrightarrow> schedule r' = [] \<and> clock r' = clock r)
       \<and> kv r' = (kv r)(session_key u \<mapsto>
            \<lparr>val = Obj sd, expires_at = Some (clock r' + nat (mins * 60) * 1000)\<rparr>)"
  using assms
  by (auto simp: create_session_def create_session_try_def io_defs
      split: list.splits if_splits prod.splits)

text \<open>
  Claim C9. When \<^verbatim>\<open>create_session\<close> succeeds for a user with payload \<open>A\<close> and later with
  payload \<open>B\<close>, a read within the TTL of the second session (the store reachable) returns
  exactly \<open>B\<close>, and the store holds under the user's key what it would hold had \<open>A\<close>
  never been written: payload \<open>B\<close>, expiring \<open>mb\<close> minutes after the instant of the second
  write. Instants are in milliseconds; the second write happens no earlier than \<open>d1\<close> after
  the first call, and exactly then on a connection without delays.
\<close>

theorem session_last_write_wins:
  assumes "create_session u A ma r = (Some ka, r1)"
    and "create_session u B mb (advance d1 r1) = (Some kb, r2)"
    and "schedule r2 = []"
    and "d2 \<le> nat (mb * 60) * 1000"
  shows "get_session u (advance d2 r2) = (Some (Obj B), advance d2 r2)
       \<and> kv r2 = (kv r)(session_key u \<mapsto>
            \<lparr>val = Obj B, expires_at = Some (clock r2 + nat (mb * 60) * 1000)\<rparr>)
       \<and> clock r + d1 \<le> clock r2
       \<and> (schedule r = [] \<longrightarrow> clock r2 = clock r + d1)"
proof -
  note a = create_session_ok [OF assms(1)]
  note b = create_session_ok [OF assms(2)]
  have a_kv: "kv r1 = (kv r)(session_key u \<mapsto>
            \<lparr>val = Obj A, expires_at = Some (clock r1 + nat (ma * 60) * 1000)\<rparr>)"
    using a by (elim conjE)
  have b_kv: "kv r2 = (kv r1)(session_key u \<mapsto>
            \<lparr>val = Obj B, expires_at = Some (clock r2 + nat (mb * 60) * 1000)\<rparr>)"
    using b by (simp add: advance_def)
  have store: "kv r2 = (kv r)(session_key u \<mapsto>
            \<lparr>val = Obj B, expires_at = Some (clock r2 + nat (mb * 60) * 1000)\<rparr>)"
    unfolding b_kv a_kv by simp
  have later: "clock r + d1 \<le> clock r2"
    using a b by (simp add: advance_def)
  have exact: "schedule r = [] \<longrightarrow> clock r2 = clock r + d1"
    using a b by (simp add: advance_def)
  have "live (advance d2 r2) (session_key u) =
      Some \<lparr>val = Obj B, expires_at = Some (clock r2 + nat (mb * 60) * 1000)\<rparr>"
    using assms(4) by (simp add: live_def advance_def store)
  then have "get_session u (advance d2 r2) = (Some (Obj B), advance d2 r2)"
    using assms(3)
    by (simp add: get_session_def get_session_try_def io_defs advance_def)
  then show ?thesis using store later exact by (intro conjI)
qed

text \<open>A login session replaced, a minute later, by one that names a pending transaction.\<close>

theorem session_last_write_wins_witness:
  "(let A = [(''name'', PyStr ''Alice''), (''email'', PyStr ''a@x.org'')];
        B = [(''name'', PyStr ''Alice''), (''pending_transaction_id'', PyStr ''TXN1'')];
        r1 = snd (create_session ''alice'' A 15 empty_store);
        r2 = snd (create_session ''alice'' B 1440 (advance 60000 r1))
    in create_session ''alice'' A 15 empty_store = (Some (session_key ''alice''), r1)
     \<and> create_session ''alice'' B 1440 (advance 60000 r1) = (Some (session_key ''alice''), r2)
     \<and> fst (get_session ''alice'' r1) = Some (Obj A)
     \<and> fst (get_session ''alice'' (advance 3600000 r2)) = Some (Obj B)
     \<and> clock r2 = 60000)"
proof -
  let ?A = "[(''name'', PyStr ''Alice''), (''email'', PyStr ''a@x.org'')]"
  let ?B = "[(''name'', PyStr ''Alice''), (''pending_transaction_id'', PyStr ''TXN1'')]"
  let ?r1 = "snd (create_session ''alice'' ?A 15 empty_store)"
  let ?r2 = "snd (create_session ''alice'' ?B 1440 (advance 60000 ?r1))"
  have h1: "create_session ''alice'' ?A 15 empty_store = (Some (session_key ''alice''), ?r1)"
    by (simp add: create_session_def create_session_try_def io_defs empty_store_def)
  have h2: "create_session ''alice'' ?B 1440 (advance 60000 ?r1) =
      (Some (session_key ''alice''), ?r2)"
    by (simp add: create_session_def create_session_try_def io_defs empty_store_def advance_def)
  have h3: "schedule ?r2 = []"
    by (simp add: create_session_def create_session_try_def io_defs empty_store_def advance_def)
  have h4: "(3600000::nat) \<le> nat (1440 * 60) * 1000" by simp
  have h5: "schedule empty_store = []" by (simp add: empty_store_def)
  have c0: "clock empty_store = 0" by (simp add: empty_store_def)
  have before: "fst (get_session ''alice'' ?r1) = Some (Obj ?A)"
    by (simp add: get_session_def get_session_try_def create_session_def create_session_try_def
        io_defs empty_store_def live_def)
  note last = session_last_write_wins [OF h1 h2 h3 h4]
  have read: "fst (get_session ''alice'' (advance 3600000 ?r2)) = Some (Obj ?B)"
    using last [THEN conjunct1] by simp
  have at: "clock ?r2 = 60000"
    using last [THEN conjunct2, THEN conjunct2, THEN conjunct2, rule_format, OF h5] c0 by simp
  show ?thesis
    unfolding Let_def using h1 h2 before read at by (intro conjI)
qed

section \<open>Pending transactions on the conversational path\<close>

lemma session_key_neq_otp_key: "session_key u \<noteq> otp_key u' t"
  by (simp add: session_key_def otp_key_def)

lemma verify_otp_reachable:
  "schedule r = [] \<Longrightarrow>
     schedule (snd (verify_otp u t c m r)) = [] \<and> clock (snd (verify_otp u t c m r)) = clock r"
  by (auto simp: verify_otp_def verify_otp_try_def io_defs
      split: option.splits json.splits pyval.splits if_splits)

lemma verify_otp_other_key:
  "k \<noteq> otp_key u t \<Longrightarrow> kv (snd (verify_otp u t c m r)) k = kv r k"
  using verify_otp_kv_cases [of u t c m r] by auto

lemma get_session_reachable:
  "schedule r = [] \<Longrightarrow> get_session u r = (map_option val (live r (session_key u)), r)"
  by (simp add: get_session_def get_session_try_def io_defs split: option.splits)

lemma live_cong: "kv r' k = kv r k \<Longrightarrow> clock r' = clock r \<Longrightarrow> live r' k = live r k"
  by (auto simp: live_def split: option.splits)

text \<open>
  Claim C7, as the code has it. With the store reachable and a session that names a pending
  transaction: when the verification succeeds, the session read afterwards has
  \<^verbatim>\<open>pending_transaction_id\<close> set to \<^verbatim>\<open>None\<close> and is otherwise the same payload; when the
  verification fails, the session read afterwards is the payload as it was, still naming
  the transaction.
\<close>

theorem process_voice_pending_transaction:
  assumes "schedule r = []"
    and "live r (session_key u) = Some es" and "val es = Obj sd"
    and "map_of sd ''pending_transaction_id'' = Some pending"
  shows "(valid (fst (verify_otp u (py_format pending) otp 3 r)) \<longrightarrow>
            fst (get_session u (snd (process_voice_otp True u otp reply r))) =
              Some (Obj (AList.update ''pending_transaction_id'' PyNone sd))
          \<and> map_of (AList.update ''pending_transaction_id'' PyNone sd)
               ''pending_transaction_id'' = Some PyNone)
       \<and> (\<not> valid (fst (verify_otp u (py_format pending) otp 3 r)) \<longrightarrow>
            fst (get_session u (snd (process_voice_otp True u otp reply r))) = Some (Obj sd))"
proof -
  let ?t = "py_format pending"
  obtain v r2 where v: "verify_otp u ?t otp 3 r = (v, r2)" by (cases "verify_otp u ?t otp 3 r")
  have gs: "get_session u r = (Some (Obj sd), r)"
    using get_session_reachable [OF assms(1)] assms(2,3) by simp
  have r2: "schedule r2 = []" "clock r2 = clock r"
    using verify_otp_reachable [OF assms(1), where u = u and t = ?t and c = otp and m = 3] v by simp_all
  have kept: "kv r2 (session_key u) = kv r (session_key u)"
    using verify_otp_other_key [OF session_key_neq_otp_key, where c = otp and m = 3 and r = r and t = ?t
        and u = u] v by simp
  have l2: "live r2 (session_key u) = Some es"
    using live_cong [OF kept r2(2)] assms(2) by simp
  show ?thesis
  proof (cases "valid v")
    case True
    let ?sd' = "AList.update ''pending_transaction_id'' PyNone sd"
    let ?r3 = "r2\<lparr>kv := (kv r2)(session_key u \<mapsto>
        \<lparr>val = Obj ?sd', expires_at = Some (clock r2 + nat (1440 * 60) * 1000)\<rparr>)\<rparr>"
    have cs: "create_session u ?sd' 1440 r2 = (Some (session_key u), ?r3)"
      using r2(1) by (simp add: create_session_def create_session_try_def io_defs)
    have pv: "snd (process_voice_otp True u otp reply r) = ?r3"
      using gs v True cs assms(4) by (simp add: process_voice_otp_def Let_def)
    have "fst (get_session u ?r3) = Some (Obj ?sd')"
      using get_session_reachable [of ?r3 u] r2(1) by (simp add: live_def)
    then show ?thesis using True v pv by (simp add: update_conv')
  next
    case False
    have pv: "snd (process_voice_otp True u otp reply r) = r2"
      using gs v False assms(4) by (simp add: process_voice_otp_def Let_def)
    have "fst (get_session u r2) = Some (Obj sd)"
      using get_session_reachable [OF r2(1), of u] l2 assms(3) by simp
    then show ?thesis using False v pv by simp
  qed
qed

text \<open>The right code and a wrong code against the same session and record.\<close>

theorem process_voice_pending_transaction_witness:
  "schedule pending_store = []
   \<and> fst (get_session ''alice'' pending_store) =
       Some (Obj [(''name'', PyStr ''Alice''), (''pending_transaction_id'', PyStr ''TXN1'')])
   \<and> valid (fst (verify_otp ''alice'' ''TXN1'' ''123456'' 3 pending_store))
   \<and> fst (get_session ''alice''
         (snd (process_voice_otp True ''alice'' ''123456'' blank_reply pending_store))) =
       Some (Obj [(''name'', PyStr ''Alice''), (''pending_transaction_id'', PyNone)])
   \<and> \<not> valid (fst (verify_otp ''alice'' ''TXN1'' ''000000'' 3 pending_store))
   \<and> fst (get_session ''alice''
         (snd (process_voice_otp True ''alice'' ''000000'' blank_reply pending_store))) =
       Some (Obj [(''name'', PyStr ''Alice''), (''pending_transaction_id'', PyStr ''TXN1'')])"
proof -
  let ?sd = "[(''name'', PyStr ''Alice''), (''pending_transaction_id'', PyStr ''TXN1'')]"
  let ?es = "\<lparr>val = Obj ?sd, expires_at = Some 86400000\<rparr>"
  have h1: "schedule pending_store = []"
    by (simp add: pending_store_def create_session_def create_session_try_def eval_defs)
  have h2: "live pending_store (session_key ''alice'') = Some ?es"
    by (simp add: pending_store_def create_session_def create_session_try_def eval_defs)
  have h3: "val ?es = Obj ?sd" by simp
  have h4: "map_of ?sd ''pending_transaction_id'' = Some (PyStr ''TXN1'')" by simp
  have gs: "fst (get_session ''alice'' pending_store) = Some (Obj ?sd)"
    using h1 h2 by (simp add: get_session_def get_session_try_def io_defs)
  have ok: "valid (fst (verify_otp ''alice'' ''TXN1'' ''123456'' 3 pending_store))"
    by (simp add: pending_store_def create_session_def create_session_try_def eval_defs
        session_key_def otp_key_def)
  have bad: "\<not> valid (fst (verify_otp ''alice'' ''TXN1'' ''000000'' 3 pending_store))"
    by (simp add: pending_store_def create_session_def create_session_try_def eval_defs
        session_key_def otp_key_def)
  note yes = process_voice_pending_transaction [OF h1 h2 h3 h4, of "''123456''" blank_reply,
      THEN conjunct1, rule_format]
  note no = process_voice_pending_transaction [OF h1 h2 h3 h4, of "''000000''" blank_reply,
      THEN conjunct2, rule_format]
  show ?thesis using h1 gs ok bad yes no by simp
qed

text \<open>
  Claim C7 as stated fails: after three wrong codes the verification resolves as a failure
  for good (the record is deleted), and the session still names the transaction.
\<close>

theorem process_voice_failure_keeps_pending_counterexample:
  "fst (process_voice_otp True ''alice'' ''123456'' blank_reply exhausted_store) =
     Inr \<lparr>response_text = ''Invalid OTP. Maximum OTP attempts exceeded'',
          intent = ''OTP_FAILED'', transaction_id = Some (PyStr ''TXN1''),
          otp_status = Some ''failed''\<rparr>
   \<and> live (snd (process_voice_otp True ''alice'' ''123456'' blank_reply exhausted_store))
        (otp_key ''alice'' ''TXN1'') = None
   \<and> fst (get_session ''alice''
         (snd (process_voice_otp True ''alice'' ''123456'' blank_reply exhausted_store))) =
       Some (Obj [(''name'', PyStr ''Alice''), (''pending_transaction_id'', PyStr ''TXN1'')])"
  by (simp add: process_voice_otp_def exhausted_store_def otp_run_def pending_store_def
      blank_reply_def get_session_def get_session_try_def create_session_def
      create_session_try_def eval_defs session_key_def otp_key_def)

section \<open>Issued codes\<close>

lemma digit_char: "n < 10 \<Longrightarrow> ''0123456789'' ! n \<in> set ''0123456789''"
  by (rule nth_mem) simp

lemma digits_are_digits: "set (digits n) \<subseteq> set ''0123456789''"
proof (induction n rule: digits.induct)
  case (1 n)
  show ?case
  proof (cases "n < 10")
    case True
    then show ?thesis using digit_char [of n] by (subst digits.simps) simp
  next
    case False
    have "n mod 10 < 10" by simp
    then have "''0123456789'' ! (n mod 10) \<in> set ''0123456789''" by (rule digit_char)
    then show ?thesis using 1 False by (subst digits.simps) simp
  qed
qed

lemma length_digits: "10 ^ k \<le> n \<Longrightarrow> n < 10 ^ Suc k \<Longrightarrow> length (digits n) = Suc k"
proof (induction k arbitrary: n)
  case 0
  then show ?case by (subst digits.simps) simp
next
  case (Suc k)
  have big: "\<not> n < 10"
  proof -
    have "(1::nat) \<le> 10 ^ k" by simp
    then show ?thesis using Suc.prems(1) unfolding power_Suc by linarith
  qed
  have lo: "10 ^ k \<le> n div 10" using Suc.prems(1) by (simp add: less_eq_div_iff_mult_less_eq)
  have hi: "n div 10 < 10 ^ Suc k" using Suc.prems(2) by (simp add: div_less_iff_less_mult)
  show ?case using Suc.IH [OF lo hi] big by (subst digits.simps) simp
qed

lemma randbelow_Some:
  "randbelow n draws = Some (k, rest) \<Longrightarrow>
     \<exists>pre. draws = pre @ k # rest \<and> (\<forall>x\<in>set pre. n \<le> x) \<and> k < n"
proof (induction draws)
  case Nil
  then show ?case by simp
next
  case (Cons d ds)
  show ?case
  proof (cases "d < n")
    case True
    then have "d = k" "ds = rest" using Cons.prems by simp_all
    then have "d # ds = [] @ k # rest \<and> (\<forall>x\<in>set []. n \<le> x) \<and> k < n" using True by simp
    then show ?thesis by (rule exI)
  next
    case False
    then have "randbelow n ds = Some (k, rest)" using Cons.prems by simp
    from Cons.IH [OF this]
    obtain pre where pre: "ds = pre @ k # rest" "\<forall>x\<in>set pre. n \<le> x" "k < n"
      by blast
    have "d # ds = (d # pre) @ k # rest \<and> (\<forall>x\<in>set (d # pre). n \<le> x) \<and> k < n"
      using pre False by simp
    then show ?thesis by (rule exI)
  qed
qed

lemma randbelow_None: "(randbelow n draws = None) = (\<forall>x\<in>set draws. n \<le> x)"
  by (induction draws) (auto simp: not_less)

lemma transfer_money_otp_Some:
  assumes "transfer_money_otp draws = Some (otp, rest)"
  shows "\<exists>pre d. draws = pre @ d # rest \<and> (\<forall>x\<in>set pre. 900000 \<le> x) \<and> d < 900000
           \<and> otp = digits (100000 + d)"
proof -
  obtain k where k: "randbelow 900000 draws = Some (k, rest)" "otp = str_int (100000 + int k)"
    using assms by (auto simp: transfer_money_otp_def randint_def)
  obtain pre where pre: "draws = pre @ k # rest" "\<forall>x\<in>set pre. 900000 \<le> x" "k < 900000"
    using randbelow_Some [OF k(1)] by blast
  have "nat (100000 + int k) = 100000 + k" by simp
  then have "otp = digits (100000 + k)" using k(2) by (simp add: str_int_def)
  then have "draws = pre @ k # rest \<and> (\<forall>x\<in>set pre. 900000 \<le> x) \<and> k < 900000
           \<and> otp = digits (100000 + k)"
    using pre by simp
  then show ?thesis by (intro exI)
qed

lemma transfer_money_otp_None:
  "(transfer_money_otp draws = None) = (\<forall>x\<in>set draws. 900000 \<le> x)"
  using randbelow_None [of 900000 draws] by (simp add: transfer_money_otp_def randint_def)

text \<open>
  Claim C8, as the code has it. \<^verbatim>\<open>random.randint\<close> returns as soon as the generator gives
  a draw below 900000. Every issued code is the decimal text of 100000 plus the first such
  draw, a number from 100000 to 999999 of six digits, and every such number is the code of
  some draw, whatever was issued before. With the store reachable, \<^verbatim>\<open>initiate_transfer\<close>
  overwrites whatever the key of the user and the transaction held with a record of the new
  code, attempt counter 0 and an expiry five minutes from now, and leaves the generator the
  draws after the one it used.
\<close>

theorem otp_issuance_overwrites:
  assumes "schedule r = []"
  shows "((transfer_money_otp draws = None) = (\<forall>x\<in>set draws. 900000 \<le> x))
       \<and> (\<forall>otp rest. transfer_money_otp draws = Some (otp, rest) \<longrightarrow>
            (\<exists>pre d. draws = pre @ d # rest \<and> (\<forall>x\<in>set pre. 900000 \<le> x) \<and> d < 900000
               \<and> otp = digits (100000 + d))
          \<and> (\<exists>n. 100000 \<le> n \<and> n \<le> 999999 \<and> otp = digits n)
          \<and> length otp = 6
          \<and> set otp \<subseteq> set ''0123456789''
          \<and> initiate_transfer True u draws r =
              Some (((''TXN'' @ str_int (int (clock r div 1000)), otp), rest),
               r\<lparr>kv := (kv r)(otp_key u (''TXN'' @ str_int (int (clock r div 1000))) \<mapsto>
                 \<lparr>val = Obj [(''otp'', PyStr otp),
                     (''transaction_id'', PyStr (''TXN'' @ str_int (int (clock r div 1000)))),
                     (''user_id'', PyStr u), (''attempts'', PyInt 0)],
                  expires_at = Some (clock r + 300000)\<rparr>)\<rparr>))
       \<and> (\<forall>n rest. 100000 \<le> n \<and> n \<le> 999999 \<longrightarrow>
            transfer_money_otp (nat (n - 100000) # rest) = Some (str_int n, rest))"
proof -
  have issued: "(\<exists>pre d. draws = pre @ d # rest \<and> (\<forall>x\<in>set pre. 900000 \<le> x) \<and> d < 900000
               \<and> otp = digits (100000 + d))
          \<and> (\<exists>n. 100000 \<le> n \<and> n \<le> 999999 \<and> otp = digits n)
          \<and> length otp = 6
          \<and> set otp \<subseteq> set ''0123456789''
          \<and> initiate_transfer True u draws r =
              Some (((''TXN'' @ str_int (int (clock r div 1000)), otp), rest),
               r\<lparr>kv := (kv r)(otp_key u (''TXN'' @ str_int (int (clock r div 1000))) \<mapsto>
                 \<lparr>val = Obj [(''otp'', PyStr otp),
                     (''transaction_id'', PyStr (''TXN'' @ str_int (int (clock r div 1000)))),
                     (''user_id'', PyStr u), (''attempts'', PyInt 0)],
                  expires_at = Some (clock r + 300000)\<rparr>)\<rparr>)"
    if some: "transfer_money_otp draws = Some (otp, rest)" for otp rest
  proof -
    note shape = transfer_money_otp_Some [OF some]
    obtain d where d: "d < 900000" "otp = digits (100000 + d)"
      using shape by blast
    have lo: "100000 \<le> 100000 + d" and hi: "100000 + d \<le> 999999" using d(1) by simp_all
    have range: "\<exists>n. 100000 \<le> n \<and> n \<le> 999999 \<and> otp = digits n"
      using lo hi d(2) by (intro exI [of _ "100000 + d"] conjI)
    have "10 ^ 5 \<le> 100000 + d" "100000 + d < 10 ^ Suc 5" using d(1) by simp_all
    then have len: "length otp = 6"
      using length_digits [of 5 "100000 + d"] d(2) by simp
    have dig: "set otp \<subseteq> set ''0123456789''"
      unfolding d(2) by (rule digits_are_digits)
    have issue: "initiate_transfer True u draws r =
              Some (((''TXN'' @ str_int (int (clock r div 1000)), otp), rest),
               r\<lparr>kv := (kv r)(otp_key u (''TXN'' @ str_int (int (clock r div 1000))) \<mapsto>
                 \<lparr>val = Obj [(''otp'', PyStr otp),
                     (''transaction_id'', PyStr (''TXN'' @ str_int (int (clock r div 1000)))),
                     (''user_id'', PyStr u), (''attempts'', PyInt 0)],
                  expires_at = Some (clock r + 300000)\<rparr>)\<rparr>)"
      using assms some
      by (simp add: initiate_transfer_def store_otp_def store_otp_try_def io_defs)
    show ?thesis using shape range len dig issue by (intro conjI)
  qed
  have onto: "transfer_money_otp (nat (n - 100000) # rest) = Some (str_int n, rest)"
    if "100000 \<le> n \<and> n \<le> 999999" for n rest
  proof -
    have "nat (n - 100000) < 900000" using that by linarith
    then show ?thesis using that by (simp add: transfer_money_otp_def randint_def)
  qed
  have all_issued: "\<forall>otp rest. transfer_money_otp draws = Some (otp, rest) \<longrightarrow>
          (\<exists>pre d. draws = pre @ d # rest \<and> (\<forall>x\<in>set pre. 900000 \<le> x) \<and> d < 900000
               \<and> otp = digits (100000 + d))
          \<and> (\<exists>n. 100000 \<le> n \<and> n \<le> 999999 \<and> otp = digits n)
          \<and> length otp = 6
          \<and> set otp \<subseteq> set ''0123456789''
          \<and> initiate_transfer True u draws r =
              Some (((''TXN'' @ str_int (int (clock r div 1000)), otp), rest),
               r\<lparr>kv := (kv r)(otp_key u (''TXN'' @ str_int (int (clock r div 1000))) \<mapsto>
                 \<lparr>val = Obj [(''otp'', PyStr otp),
                     (''transaction_id'', PyStr (''TXN'' @ str_int (int (clock r div 1000)))),
                     (''user_id'', PyStr u), (''attempts'', PyInt 0)],
                  expires_at = Some (clock r + 300000)\<rparr>)\<rparr>)"
    by (intro allI impI) (rule issued)
  have all_onto: "\<forall>n rest. 100000 \<le> n \<and> n \<le> 999999 \<longrightarrow>
            transfer_money_otp (nat (n - 100000) # rest) = Some (str_int n, rest)"
    by (intro allI impI) (rule onto)
  show ?thesis
    using transfer_money_otp_None [of draws] all_issued all_onto by (intro conjI)
qed

text \<open>An issuance on the empty store, the generator's first draw being out of range.\<close>

theorem otp_issuance_overwrites_witness:
  "schedule empty_store = []
   \<and> transfer_money_otp [1000000, 23456, 7] = Some (''123456'', [7])
   \<and> initiate_transfer True ''alice'' [1000000, 23456, 7] empty_store =
       Some (((''TXN0'', ''123456''), [7]),
        empty_store\<lparr>kv := (kv empty_store)(otp_key ''alice'' ''TXN0'' \<mapsto>
           \<lparr>val = Obj [(''otp'', PyStr ''123456''), (''transaction_id'', PyStr ''TXN0''),
                       (''user_id'', PyStr ''alice''), (''attempts'', PyInt 0)],
            expires_at = Some 300000\<rparr>)\<rparr>)
   \<and> length ''123456'' = 6
   \<and> transfer_money_otp [1000000, 950000] = None"
proof -
  have h: "schedule empty_store = []" by (simp add: empty_store_def)
  have c: "transfer_money_otp [1000000, 23456, 7] = Some (''123456'', [7])"
    by (simp add: transfer_money_otp_def randint_def str_int_def digits.simps)
  have t: "''TXN'' @ str_int (int (clock empty_store div 1000)) = ''TXN0''"
    by (simp add: empty_store_def str_int_def digits.simps)
  have n: "transfer_money_otp [1000000, 950000] = None"
    using otp_issuance_overwrites [OF h, of "[1000000, 950000]", THEN conjunct1] by simp
  note issue = otp_issuance_overwrites [OF h, of "[1000000, 23456, 7]" "''alice''",
      THEN conjunct2, THEN conjunct1, rule_format, OF c]
  have i: "initiate_transfer True ''alice'' [1000000, 23456, 7] empty_store =
       Some (((''TXN0'', ''123456''), [7]),
        empty_store\<lparr>kv := (kv empty_store)(otp_key ''alice'' ''TXN0'' \<mapsto>
           \<lparr>val = Obj [(''otp'', PyStr ''123456''), (''transaction_id'', PyStr ''TXN0''),
                       (''user_id'', PyStr ''alice''), (''attempts'', PyInt 0)],
            expires_at = Some 300000\<rparr>)\<rparr>)"
    using issue [THEN conjunct2, THEN conjunct2, THEN conjunct2, THEN conjunct2]
    unfolding t by (simp add: empty_store_def)
  have l: "length ''123456'' = 6"
    using issue [THEN conjunct2, THEN conjunct2, THEN conjunct1] .
  show ?thesis using h c i l n by (intro conjI)
qed

text \<open>
  Claim C8 as stated fails: two issuances in the same second for the same user, on two
  equal draws of the generator, issue the same code for the same transaction.
\<close>

theorem otp_code_repeats_counterexample:
  "initiate_transfer True ''alice'' [7, 7] empty_store =
     Some (((''TXN0'', ''100007''), [7]), issued_store)
   \<and> initiate_transfer True ''alice'' [7] issued_store =
     Some (((''TXN0'', ''100007''), []), issued_store)"
  by (simp add: initiate_transfer_def transfer_money_otp_def randint_def issued_store_def
      store_otp_def store_otp_try_def io_defs empty_store_def str_int_def digits.simps)

end
